theory Spec2Isabelle
  imports Main "HOL-Library.AList"
begin

section \<open>Values, callbacks and objects\<close>

text \<open>
  The embedding follows \<^verbatim>\<open>src/module/common-api.js\<close> (the \<^verbatim>\<open>CommonApi\<close> mixin).
  Objects live in a store indexed by references; a request options object
  (\<^verbatim>\<open>_options\<close>) is known by its identity, since the code compares it with
  \<^verbatim>\<open>indexOf\<close> and mutates its \<^verbatim>\<open>canceled\<close> property.
\<close>

type_synonym ref = nat
type_synonym hook = string
type_synonym config = nat
type_synonym pid = nat

datatype jsval = JUndefined | JNull | JFalse | JData nat | JConfig config | JObject ref | JTypeError

datatype status = OK | ERROR | CANCELED

text \<open>A property that the code leaves \<^verbatim>\<open>undefined\<close>, sets to \<^verbatim>\<open>null\<close> or sets to a value.\<close>

datatype 'a slot = Undefined | Null | Val 'a

text \<open>
  Callbacks are code of the caller. A callback is modelled by a label and a body of
  actions: every invocation is recorded in the trace of the world (with the receiver,
  the arguments and the state of the receiver at that moment), and the body may
  dispatch further hooks and may throw.
\<close>

datatype action = Throw jsval | Dispatch ref hook "jsval list option"

datatype callback = Callback nat "action list"

text \<open>
  The value of \<^verbatim>\<open>$$dsp\<close>: a function given to \<^verbatim>\<open>$decorate\<close>, or the closure
  \<^verbatim>\<open>$decorate\<close> builds from a hook mapping, which holds \<^verbatim>\<open>oldDispatcher\<close> and
  \<^verbatim>\<open>_hooks\<close>. Every falsy value of the property is \<open>None\<close>.
\<close>

datatype dspfun = Function callback | Decorated "dspfun option" "(hook \<times> callback) list"

datatype hooks = HookFunction dspfun | HookMapping "(hook \<times> callback) list" | Falsy

text \<open>\<^verbatim>\<open>$scope\<close> and \<^verbatim>\<open>$type\<close>: an object with \<^verbatim>\<open>$dispatch\<close>, or one without it.\<close>

datatype parent = Plain | Dispatchable ref

record obj =
  dsp :: "dspfun option"
  cb :: "(hook \<times> callback list) list option"
  scope :: "parent option"
  otype :: "parent option"
  pending :: "config list slot"
  promise :: "pid slot"
  status :: "status option"
  response :: jsval
  error :: jsval

datatype event = Call nat "hook option" "ref option" "jsval list" "obj option"


section \<open>Requests, promises and the world\<close>

text \<open>
  The variables a \<^verbatim>\<open>performRequest\<close> closure captures in \<^verbatim>\<open>$send\<close>:
  \<^verbatim>\<open>self\<close>, \<^verbatim>\<open>dsp\<close> (the value \<^verbatim>\<open>$dispatcher()\<close> returned at that moment),
  \<^verbatim>\<open>_options\<close>, \<^verbatim>\<open>_success\<close> and \<^verbatim>\<open>_error\<close>.
\<close>

record closure =
  self :: ref
  captured :: "dspfun option"
  options :: config
  success :: "callback option"
  failure :: "callback option"

text \<open>
  The functions the code hands to the promise library: \<^verbatim>\<open>performRequest\<close>, the two
  functions given to \<^verbatim>\<open>$http(_options).then\<close>, and the caller's callbacks of
  \<^verbatim>\<open>$then\<close> and \<^verbatim>\<open>$finally\<close>.
\<close>

datatype handler =
    PerformRequest closure
  | OnResolved closure
  | OnRejected closure
  | UserCallback callback
  | FinallyCallback callback

datatype outcome = Resolve jsval | Reject jsval

type_synonym reaction = "handler option \<times> handler option \<times> pid"

type_synonym job = "handler option \<times> outcome \<times> pid"

record world =
  objs :: "ref \<Rightarrow> obj"
  canceled :: "config \<Rightarrow> bool"
  trace :: "event list"
  promises :: "pid \<Rightarrow> outcome option"
  reactions :: "pid \<Rightarrow> reaction list"
  fresh :: pid
  queue :: "job list"
  requests :: "(pid \<times> config) list"

text \<open>
  A call returns, throws (the effects made so far stay), or never returns. \<open>Diverge\<close>
  is the result of a computation whose nesting of \<^verbatim>\<open>$dispatch\<close> calls exceeds the
  fuel.
\<close>

datatype 'a result = Diverge | Threw jsval world | Return 'a world

fun bind :: "'a result \<Rightarrow> ('a \<Rightarrow> world \<Rightarrow> 'b result) \<Rightarrow> 'b result" where
  "bind Diverge f = Diverge"
| "bind (Threw e w) f = Threw e w"
| "bind (Return x w) f = f x w"

definition upd_obj :: "ref \<Rightarrow> (obj \<Rightarrow> obj) \<Rightarrow> world \<Rightarrow> world" where
  "upd_obj r f w = w\<lparr>objs := (objs w)(r := f (objs w r))\<rparr>"

definition set_dsp :: "ref \<Rightarrow> dspfun option \<Rightarrow> world \<Rightarrow> world" where
  "set_dsp r d = upd_obj r (\<lambda>x. x\<lparr>dsp := d\<rparr>)"

definition set_promise :: "ref \<Rightarrow> pid slot \<Rightarrow> world \<Rightarrow> world" where
  "set_promise r p = upd_obj r (\<lambda>x. x\<lparr>promise := p\<rparr>)"

definition set_status :: "ref \<Rightarrow> status \<Rightarrow> world \<Rightarrow> world" where
  "set_status r s = upd_obj r (\<lambda>x. x\<lparr>status := Some s\<rparr>)"

section \<open>Hooks API\<close>

type_synonym dispatch_fn =
  "ref \<Rightarrow> hook \<Rightarrow> jsval list option \<Rightarrow> ref option \<Rightarrow> world \<Rightarrow> unit result"

text \<open>\<^verbatim>\<open>_args || EMPTY_ARRAY\<close>\<close>

definition args_or_empty :: "jsval list option \<Rightarrow> jsval list" where
  "args_or_empty args = (case args of None \<Rightarrow> [] | Some xs \<Rightarrow> xs)"

definition record_call :: "nat \<Rightarrow> hook option \<Rightarrow> ref option \<Rightarrow> jsval list \<Rightarrow> world \<Rightarrow> world" where
  "record_call l h ctx args w =
     w\<lparr>trace := trace w @ [Call l h ctx args (map_option (objs w) ctx)]\<rparr>"

text \<open>
  The body of a callback. \<open>D\<close> is the \<^verbatim>\<open>$dispatch\<close> the body calls; a
  \<^verbatim>\<open>$dispatch\<close> from a callback gives no context, so the context is the target.
\<close>

primrec run_action :: "dispatch_fn \<Rightarrow> action \<Rightarrow> world \<Rightarrow> unit result" where
  "run_action D (Throw e) w = Threw e w"
| "run_action D (Dispatch r h args) w = D r h args None w"

primrec run_actions :: "dispatch_fn \<Rightarrow> action list \<Rightarrow> world \<Rightarrow> unit result" where
  "run_actions D [] w = Return () w"
| "run_actions D (a # as) w = bind (run_action D a w) (\<lambda>_. run_actions D as)"

text \<open>
  \<^verbatim>\<open>cb.apply(_ctx, _args)\<close>. The hook is recorded when the function receives it as an
  argument, which only a dispatcher function does.
\<close>

primrec apply_cb ::
  "dispatch_fn \<Rightarrow> callback \<Rightarrow> hook option \<Rightarrow> ref option \<Rightarrow> jsval list \<Rightarrow> world \<Rightarrow> unit result" where
  "apply_cb D (Callback l body) h ctx args w = run_actions D body (record_call l h ctx args w)"

text \<open>
  \<^verbatim>\<open>$$cb\<close> and a hook mapping given to \<^verbatim>\<open>$decorate\<close> are plain objects, and a property
  read \<^verbatim>\<open>o[_hook]\<close> on a plain object that has no property of that name of its own finds
  the member of \<^verbatim>\<open>Object.prototype\<close> of that name, if there is one. An association list
  holds the properties of the object itself; these are the names of the inherited ones.
\<close>

definition prototype_members :: "hook list" where
  "prototype_members =
     [''constructor'', ''toString'', ''toLocaleString'', ''valueOf'', ''hasOwnProperty'',
      ''isPrototypeOf'', ''propertyIsEnumerable'', ''__proto__'', ''__defineGetter__'',
      ''__defineSetter__'', ''__lookupGetter__'', ''__lookupSetter__'']"

text \<open>
  \<^verbatim>\<open>this.$$cb && this.$$cb[_hook]\<close> as the loop of \<^verbatim>\<open>$dispatch\<close> reads it: the callbacks of
  the list registered for the hook. Without such a list the value is missing or an
  inherited member, whose property \<^verbatim>\<open>0\<close> is \<^verbatim>\<open>undefined\<close>, so the loop ends at once.
\<close>

definition cbs :: "obj \<Rightarrow> hook \<Rightarrow> callback list" where
  "cbs x h = (case cb x of None \<Rightarrow> []
              | Some m \<Rightarrow> (case map_of m h of None \<Rightarrow> [] | Some fs \<Rightarrow> fs))"

text \<open>The loop \<^verbatim>\<open>for(i = 0; !!(cb = cbs[i]); i++) cb.apply(_ctx, _args || EMPTY_ARRAY)\<close>.\<close>

primrec run_cbs :: "dispatch_fn \<Rightarrow> callback list \<Rightarrow> ref \<Rightarrow> jsval list \<Rightarrow> world \<Rightarrow> unit result" where
  "run_cbs D [] ctx args w = Return () w"
| "run_cbs D (f # fs) ctx args w =
     bind (apply_cb D f None (Some ctx) args w) (\<lambda>_. run_cbs D fs ctx args)"

text \<open>
  What \<^verbatim>\<open>_hooks[_hook]\<close> finds in a hook mapping: a function of the mapping itself, an
  inherited member, or nothing.
\<close>

datatype member = Own callback | Inherited hook | Missing

definition member_of :: "(hook \<times> callback) list \<Rightarrow> hook \<Rightarrow> member" where
  "member_of m h =
     (case map_of m h of
        Some f \<Rightarrow> Own f
      | None \<Rightarrow> if h \<in> set prototype_members then Inherited h else Missing)"

text \<open>
  \<^verbatim>\<open>if(extraCb) extraCb.apply(_ctx, _args || EMPTY_ARRAY)\<close>. An inherited member is truthy.
  \<^verbatim>\<open>__proto__\<close> is an object without \<^verbatim>\<open>apply\<close>, so the call throws a \<^verbatim>\<open>TypeError\<close>;
  \<^verbatim>\<open>__defineGetter__\<close> and \<^verbatim>\<open>__defineSetter__\<close> throw a \<^verbatim>\<open>TypeError\<close> unless their
  second argument is a function, which no value of the model is; the other members are
  functions that return without an effect on the object.
\<close>

definition apply_member ::
  "dispatch_fn \<Rightarrow> member \<Rightarrow> ref \<Rightarrow> jsval list \<Rightarrow> world \<Rightarrow> unit result" where
  "apply_member D extraCb ctx args w =
     (case extraCb of
        Missing \<Rightarrow> Return () w
      | Own f \<Rightarrow> apply_cb D f None (Some ctx) args w
      | Inherited h \<Rightarrow>
          if h \<in> {''__proto__'', ''__defineGetter__'', ''__defineSetter__''}
          then Threw JTypeError w else Return () w)"

text \<open>
  \<^verbatim>\<open>dsp(_hook, _args, _ctx)\<close>: a function of the caller, or the closure of
  \<^verbatim>\<open>$decorate\<close>, which calls \<^verbatim>\<open>oldDispatcher\<close> when there is one and then what
  \<^verbatim>\<open>_hooks[_hook]\<close> finds.
\<close>

fun call_dsp ::
  "dispatch_fn \<Rightarrow> dspfun \<Rightarrow> hook \<Rightarrow> jsval list option \<Rightarrow> ref \<Rightarrow> world \<Rightarrow> unit result" where
  "call_dsp D (Function f) h args ctx w = apply_cb D f (Some h) (Some ctx) (args_or_empty args) w"
| "call_dsp D (Decorated None m) h args ctx w =
     apply_member D (member_of m h) ctx (args_or_empty args) w"
| "call_dsp D (Decorated (Some oldDispatcher) m) h args ctx w =
     bind (call_dsp D oldDispatcher h args ctx w)
       (\<lambda>_. apply_member D (member_of m h) ctx (args_or_empty args))"

text \<open>
  \<^verbatim>\<open>$dispatch\<close>, with the \<^verbatim>\<open>$dispatch\<close> of the calls it makes as the parameter \<open>D\<close>.
  The method returns \<^verbatim>\<open>this\<close>; the model returns the world only.
\<close>

definition dispatch_body :: "dispatch_fn \<Rightarrow> dispatch_fn" where
  "dispatch_body D this h args ctx0 w =
     (let d = dsp (objs w this);
          ctx = (case ctx0 of None \<Rightarrow> this | Some c \<Rightarrow> c)
      in bind (case d of
                 None \<Rightarrow> Return () w
               | Some f \<Rightarrow> call_dsp D f h args ctx (set_dsp this None w))
        (\<lambda>_ w1. bind (run_cbs D (cbs (objs w1 this) h) ctx (args_or_empty args) w1)
        (\<lambda>_ w2. bind (case scope (objs w2 this) of
                        Some (Dispatchable s) \<Rightarrow> D s h args (Some ctx) w2
                      | _ \<Rightarrow> (case otype (objs w2 this) of
                                None \<Rightarrow> Return () w2
                              | Some Plain \<Rightarrow> Threw JTypeError w2
                              | Some (Dispatchable t) \<Rightarrow> D t h args (Some ctx) w2))
        (\<lambda>_ w3. Return () (set_dsp this d w3)))))"

text \<open>The fuel bounds the depth of nested \<^verbatim>\<open>$dispatch\<close> calls.\<close>

primrec dispatch :: "nat \<Rightarrow> dispatch_fn" where
  "dispatch 0 = (\<lambda>this h args ctx w. Diverge)"
| "dispatch (Suc n) = dispatch_body (dispatch n)"

text \<open>
  \<^verbatim>\<open>$on\<close>. \<^verbatim>\<open>$$cb\<close> is created when it is missing. For a hook named like a member of
  \<^verbatim>\<open>Object.prototype\<close> with no list of its own, \<^verbatim>\<open>this.$$cb[_hook]\<close> is the inherited
  member, which is truthy and has no \<^verbatim>\<open>push\<close>: the call throws a \<^verbatim>\<open>TypeError\<close> and
  registers nothing.
\<close>

definition on :: "ref \<Rightarrow> hook \<Rightarrow> callback \<Rightarrow> world \<Rightarrow> unit result" where
  "on this h f w =
     (let m = (case cb (objs w this) of None \<Rightarrow> [] | Some m \<Rightarrow> m)
      in case map_of m h of
           Some hooks \<Rightarrow>
             Return () (upd_obj this (\<lambda>x. x\<lparr>cb := Some (AList.update h (hooks @ [f]) m)\<rparr>) w)
         | None \<Rightarrow>
             if h \<in> set prototype_members
             then Threw JTypeError (upd_obj this (\<lambda>x. x\<lparr>cb := Some m\<rparr>) w)
             else Return () (upd_obj this (\<lambda>x. x\<lparr>cb := Some (AList.update h [f] m)\<rparr>) w))"

text \<open>
  \<^verbatim>\<open>$decorate\<close>: \<^verbatim>\<open>_fun\<close> is any computation on the world; the \<^verbatim>\<open>finally\<close> block
  runs when it returns and when it throws.
\<close>

definition decorate :: "ref \<Rightarrow> hooks \<Rightarrow> (world \<Rightarrow> 'a result) \<Rightarrow> world \<Rightarrow> 'a result" where
  "decorate this hs body w =
     (let oldDispatcher = dsp (objs w this);
          w1 = set_dsp this
                 (case hs of
                    HookFunction f \<Rightarrow> Some f
                  | Falsy \<Rightarrow> None
                  | HookMapping m \<Rightarrow> Some (Decorated oldDispatcher m)) w
      in case body w1 of
           Diverge \<Rightarrow> Diverge
         | Threw e w2 \<Rightarrow> Threw e (set_dsp this oldDispatcher w2)
         | Return x w2 \<Rightarrow> Return x (set_dsp this oldDispatcher w2))"

text \<open>\<^verbatim>\<open>$dispatcher\<close>\<close>

definition dispatcher :: "ref \<Rightarrow> world \<Rightarrow> dspfun option" where
  "dispatcher this w = dsp (objs w this)"


section \<open>The promise library and the transport\<close>

text \<open>
  \<^verbatim>\<open>$q\<close> and \<^verbatim>\<open>$http\<close> are collaborators of the code, not part of it. They are
  modelled by their contract: a promise is pending (\<open>None\<close>) or settled once and for
  all; \<^verbatim>\<open>then\<close> returns a derived promise; the functions given to \<^verbatim>\<open>then\<close> never
  run inside the call that registers or settles, but later, from a queue, in the order
  in which they became due; a function that returns a promise makes the derived promise
  follow it; a function that throws rejects the derived promise with what it threw.
\<close>

definition alloc :: "outcome option \<Rightarrow> world \<Rightarrow> pid \<times> world" where
  "alloc s w =
     (fresh w, w\<lparr>promises := (promises w)(fresh w := s),
                 reactions := (reactions w)(fresh w := []),
                 fresh := Suc (fresh w)\<rparr>)"

fun job_of :: "outcome \<Rightarrow> reaction \<Rightarrow> job" where
  "job_of s (f, r, d) = (case s of Resolve v \<Rightarrow> (f, s, d) | Reject v \<Rightarrow> (r, s, d))"

definition settle :: "pid \<Rightarrow> outcome \<Rightarrow> world \<Rightarrow> world" where
  "settle p s w =
     (case promises w p of
        Some _ \<Rightarrow> w
      | None \<Rightarrow> w\<lparr>promises := (promises w)(p := Some s),
                   queue := queue w @ map (job_of s) (reactions w p),
                   reactions := (reactions w)(p := [])\<rparr>)"

definition subscribe :: "pid \<Rightarrow> reaction \<Rightarrow> world \<Rightarrow> world" where
  "subscribe p r w =
     (case promises w p of
        None \<Rightarrow> w\<lparr>reactions := (reactions w)(p := reactions w p @ [r])\<rparr>
      | Some s \<Rightarrow> w\<lparr>queue := queue w @ [job_of s r]\<rparr>)"

text \<open>\<^verbatim>\<open>promise.then(f, r)\<close>\<close>

definition q_then :: "pid \<Rightarrow> handler option \<Rightarrow> handler option \<Rightarrow> world \<Rightarrow> pid \<times> world" where
  "q_then p f r w = (let (d, w1) = alloc None w in (d, subscribe p (f, r, d) w1))"

text \<open>\<^verbatim>\<open>$q.when(v)\<close> and \<^verbatim>\<open>$q.reject(v)\<close>\<close>

definition q_when :: "jsval \<Rightarrow> world \<Rightarrow> pid \<times> world" where
  "q_when v = alloc (Some (Resolve v))"

definition q_reject :: "jsval \<Rightarrow> world \<Rightarrow> pid \<times> world" where
  "q_reject v = alloc (Some (Reject v))"

text \<open>
  \<^verbatim>\<open>$http(_options)\<close> issues a transport call and returns a pending promise; the call
  is in flight until the transport settles that promise.
\<close>

definition http :: "config \<Rightarrow> world \<Rightarrow> pid \<times> world" where
  "http c w = (let (h, w1) = alloc None w in (h, w1\<lparr>requests := requests w1 @ [(h, c)]\<rparr>))"

definition in_flight :: "world \<Rightarrow> (pid \<times> config) list" where
  "in_flight w = filter (\<lambda>(h, c). promises w h = None) (requests w)"

definition transport_settles :: "pid \<Rightarrow> outcome \<Rightarrow> world \<Rightarrow> world" where
  "transport_settles h s w = (if h \<in> fst ` set (requests w) then settle h s w else w)"

section \<open>Communication API\<close>

text \<open>\<^verbatim>\<open>indexOf\<close> (\<open>None\<close> is -1) and \<^verbatim>\<open>splice(i, 1)\<close>, which for -1 removes the last element.\<close>

primrec indexOf :: "'a list \<Rightarrow> 'a \<Rightarrow> nat option" where
  "indexOf [] x = None"
| "indexOf (y # ys) x = (if y = x then Some 0 else map_option Suc (indexOf ys x))"

primrec splice1 :: "'a list \<Rightarrow> nat option \<Rightarrow> 'a list" where
  "splice1 xs None = butlast xs"
| "splice1 xs (Some i) = take i xs @ drop (Suc i) xs"

text \<open>\<^verbatim>\<open>self.$decorate(dsp, ...)\<close> with the captured \<^verbatim>\<open>dsp\<close>: a function or a falsy value.\<close>

definition captured_hooks :: "closure \<Rightarrow> hooks" where
  "captured_hooks c = (case captured c of None \<Rightarrow> Falsy | Some f \<Rightarrow> HookFunction f)"

datatype returned = Value jsval | Promise pid

text \<open>The function given to \<^verbatim>\<open>then\<close> for a response of the transport (line 288).\<close>

definition onResolved :: "nat \<Rightarrow> closure \<Rightarrow> jsval \<Rightarrow> world \<Rightarrow> returned result" where
  "onResolved n c r w =
     (if canceled w (options c)
      then Return (Value (JObject (self c))) (set_status (self c) CANCELED w)
      else bind
        (decorate (self c) (captured_hooks c)
           (\<lambda>w. case pending (objs w (self c)) of
                   Val ps \<Rightarrow>
                     (let ps' = splice1 ps (indexOf ps (options c));
                          w1 = upd_obj (self c)
                                 (\<lambda>x. x\<lparr>pending := (if length ps' = 0 then Undefined else Val ps'),
                                         status := Some OK, response := r\<rparr>) w
                      in bind (dispatch n (self c) ''after-request'' (Some [r]) None w1)
                           (\<lambda>_ w2. case success c of
                                      None \<Rightarrow> Return () w2
                                    | Some f \<Rightarrow> apply_cb (dispatch n) f None (Some (self c)) [r] w2))
                 | _ \<Rightarrow> Threw JTypeError w)
           w)
        (\<lambda>_ w'. Return (Value (JObject (self c))) w'))"

text \<open>The function given to \<^verbatim>\<open>then\<close> for a rejection of the transport (line 315).\<close>

definition onRejected :: "nat \<Rightarrow> closure \<Rightarrow> jsval \<Rightarrow> world \<Rightarrow> returned result" where
  "onRejected n c r w =
     (if canceled w (options c)
      then Return (Value (JObject (self c))) (set_status (self c) CANCELED w)
      else bind
        (decorate (self c) (captured_hooks c)
           (\<lambda>w. case pending (objs w (self c)) of
                   Val ps \<Rightarrow>
                     (let ps' = splice1 ps (indexOf ps (options c));
                          w1 = upd_obj (self c)
                                 (\<lambda>x. x\<lparr>pending := (if length ps' = 0 then Null else Val ps'),
                                         status := Some ERROR, response := r\<rparr>) w
                      in bind (dispatch n (self c) ''after-request-error'' (Some [r]) None w1)
                           (\<lambda>_ w2. case failure c of
                                      None \<Rightarrow> Return () w2
                                    | Some f \<Rightarrow> apply_cb (dispatch n) f None (Some (self c)) [r] w2))
                 | _ \<Rightarrow> Threw JTypeError w)
           w)
        (\<lambda>_ w'. let (p, w'') = q_reject (JObject (self c)) w' in Return (Promise p) w''))"

text \<open>\<^verbatim>\<open>performRequest\<close>; it returns a promise.\<close>

definition performRequest :: "nat \<Rightarrow> closure \<Rightarrow> world \<Rightarrow> pid result" where
  "performRequest n c w =
     (if canceled w (options c)
      then (let (p, w1) = q_when (JObject (self c)) (set_status (self c) CANCELED w)
            in Return p w1)
      else bind
        (decorate (self c) (captured_hooks c)
           (\<lambda>w. dispatch n (self c) ''before-request'' (Some [JConfig (options c)]) None
                   (upd_obj (self c) (\<lambda>x. x\<lparr>response := JNull, error := JFalse\<rparr>) w))
           w)
        (\<lambda>_ w1. let (h, w2) = http (options c) w1;
                     (p, w3) = q_then h (Some (OnResolved c)) (Some (OnRejected c)) w2
                 in Return p w3))"

text \<open>\<^verbatim>\<open>$send\<close>\<close>

definition send ::
  "nat \<Rightarrow> ref \<Rightarrow> config \<Rightarrow> callback option \<Rightarrow> callback option \<Rightarrow> world \<Rightarrow> unit result" where
  "send n this opts s e w =
     (let c = \<lparr>self = this, captured = dispatcher this w, options = opts,
               success = s, failure = e\<rparr>;
          w1 = upd_obj this
                 (\<lambda>x. x\<lparr>pending := Val ((case pending x of Val ps \<Rightarrow> ps | _ \<Rightarrow> []) @ [opts])\<rparr>) w
      in case promise (objs w1 this) of
           Val p \<Rightarrow>
             (let (d, w2) = q_then p (Some (PerformRequest c)) (Some (PerformRequest c)) w1
              in Return () (set_promise this (Val d) w2))
         | _ \<Rightarrow> bind (performRequest n c w1) (\<lambda>p w2. Return () (set_promise this (Val p) w2)))"

text \<open>\<^verbatim>\<open>$cancel\<close>\<close>

definition cancel :: "ref \<Rightarrow> world \<Rightarrow> world" where
  "cancel this w =
     set_promise this Null
       (case pending (objs w this) of
          Val ps \<Rightarrow> w\<lparr>canceled := fold (\<lambda>c f. f(c := True)) ps (canceled w)\<rparr>
        | _ \<Rightarrow> w)"

section \<open>Promise API\<close>

text \<open>
  \<^verbatim>\<open>$then\<close> and \<^verbatim>\<open>$finally\<close> call a method of \<^verbatim>\<open>this.$promise\<close>; on
  \<^verbatim>\<open>undefined\<close> and on \<^verbatim>\<open>null\<close> that is a \<^verbatim>\<open>TypeError\<close>.
\<close>

definition then_cb :: "ref \<Rightarrow> callback option \<Rightarrow> callback option \<Rightarrow> world \<Rightarrow> unit result" where
  "then_cb this s e w =
     (case promise (objs w this) of
        Val p \<Rightarrow>
          (let (d, w1) = q_then p (map_option UserCallback s) (map_option UserCallback e) w
           in Return () (set_promise this (Val d) w1))
      | _ \<Rightarrow> Threw JTypeError w)"

definition finally_cb :: "ref \<Rightarrow> callback \<Rightarrow> world \<Rightarrow> unit result" where
  "finally_cb this f w =
     (case promise (objs w this) of
        Val p \<Rightarrow>
          (let (d, w1) = q_then p (Some (FinallyCallback f)) (Some (FinallyCallback f)) w
           in Return () (set_promise this (Val d) w1))
      | _ \<Rightarrow> Threw JTypeError w)"

section \<open>Running the queue\<close>

primrec outcome_value :: "outcome \<Rightarrow> jsval" where
  "outcome_value (Resolve v) = v"
| "outcome_value (Reject v) = v"

text \<open>
  A function of the caller given to \<^verbatim>\<open>then\<close> returns \<^verbatim>\<open>undefined\<close>; one given to
  \<^verbatim>\<open>finally\<close> passes the outcome on.
\<close>

primrec run_handler :: "nat \<Rightarrow> handler \<Rightarrow> outcome \<Rightarrow> world \<Rightarrow> returned result" where
  "run_handler n (PerformRequest c) s w =
     bind (performRequest n c w) (\<lambda>p w1. Return (Promise p) w1)"
| "run_handler n (OnResolved c) s w = onResolved n c (outcome_value s) w"
| "run_handler n (OnRejected c) s w = onRejected n c (outcome_value s) w"
| "run_handler n (UserCallback f) s w =
     bind (apply_cb (dispatch n) f None None [outcome_value s] w)
       (\<lambda>_ w1. Return (Value JUndefined) w1)"
| "run_handler n (FinallyCallback f) s w =
     bind (apply_cb (dispatch n) f None None [] w)
       (\<lambda>_ w1. case s of
                  Resolve v \<Rightarrow> Return (Value v) w1
                | Reject v \<Rightarrow> (let (p, w2) = q_reject v w1 in Return (Promise p) w2))"

text \<open>One turn of the queue: the first job runs and settles its derived promise.\<close>

definition tick :: "nat \<Rightarrow> world \<Rightarrow> unit result" where
  "tick n w =
     (case queue w of
        [] \<Rightarrow> Return () w
      | (k, s, d) # js \<Rightarrow>
          (case k of
             None \<Rightarrow> Return () (settle d s (w\<lparr>queue := js\<rparr>))
           | Some f \<Rightarrow>
               (case run_handler n f s (w\<lparr>queue := js\<rparr>) of
                  Diverge \<Rightarrow> Diverge
                | Threw e w1 \<Rightarrow> Return () (settle d (Reject e) w1)
                | Return (Value v) w1 \<Rightarrow> Return () (settle d (Resolve v) w1)
                | Return (Promise q) w1 \<Rightarrow> Return () (subscribe q (None, None, d) w1))))"

section \<open>The initial world\<close>

definition new_obj :: obj where
  "new_obj = \<lparr>dsp = None, cb = None, scope = None, otype = None, pending = Undefined,
              promise = Undefined, status = None, response = JUndefined, error = JUndefined\<rparr>"

definition init :: world where
  "init = \<lparr>objs = (\<lambda>_. new_obj), canceled = (\<lambda>_. False), trace = [], promises = (\<lambda>_. None),
           reactions = (\<lambda>_. []), fresh = 0, queue = [], requests = []\<rparr>"


section \<open>Schedules\<close>

text \<open>
  What can happen to a world: a call of a method by the program, the transport settling
  the promise of a call it was given, or the promise library running the next function
  that is due. A call that throws ends there, and the schedule goes on; a call that
  never returns ends the schedule.
\<close>

datatype call =
    Send ref config "callback option" "callback option"
  | DecoratedSend ref hooks config "callback option" "callback option"
  | Cancel ref
  | Then ref "callback option" "callback option"
  | Finally ref callback
  | On ref hook callback
  | DispatchHook ref hook "jsval list option"
  | TransportSettles pid outcome
  | Tick

primrec step :: "nat \<Rightarrow> call \<Rightarrow> world \<Rightarrow> unit result" where
  "step n (Send this opts s e) w = send n this opts s e w"
| "step n (DecoratedSend this hs opts s e) w = decorate this hs (send n this opts s e) w"
| "step n (Cancel this) w = Return () (cancel this w)"
| "step n (Then this s e) w = then_cb this s e w"
| "step n (Finally this f) w = finally_cb this f w"
| "step n (On this h f) w = on this h f w"
| "step n (DispatchHook this h args) w = dispatch n this h args None w"
| "step n (TransportSettles h s) w = Return () (transport_settles h s w)"
| "step n Tick w = tick n w"

primrec run :: "nat \<Rightarrow> call list \<Rightarrow> world \<Rightarrow> world option" where
  "run n [] w = Some w"
| "run n (e # es) w =
     (case step n e w of
        Diverge \<Rightarrow> None
      | Threw x w' \<Rightarrow> run n es w'
      | Return u w' \<Rightarrow> run n es w')"

primrec environment :: "call \<Rightarrow> bool" where
  "environment (Send this opts s e) = False"
| "environment (DecoratedSend this hs opts s e) = False"
| "environment (Cancel this) = False"
| "environment (Then this s e) = False"
| "environment (Finally this f) = False"
| "environment (On this h f) = False"
| "environment (DispatchHook this h args) = False"
| "environment (TransportSettles h s) = True"
| "environment Tick = True"

section \<open>The order of visits, as the specification states it\<close>

text \<open>
  The specification lists what a hook invocation visits: the active override if
  present, every registered instance callback in registration order, then the scope if
  it can dispatch, otherwise the type if present. \<open>hook_visits\<close> is that list, and
  \<open>visit_all\<close> makes the visits one after the other.
\<close>

datatype visit = Override dspfun | Instance callback | Bubble ref

definition hook_visits :: "obj \<Rightarrow> hook \<Rightarrow> visit list" where
  "hook_visits x h =
     (case dsp x of None \<Rightarrow> [] | Some d \<Rightarrow> [Override d]) @
     map Instance (cbs x h) @
     (case scope x of
        Some (Dispatchable s) \<Rightarrow> [Bubble s]
      | _ \<Rightarrow> (case otype x of Some (Dispatchable t) \<Rightarrow> [Bubble t] | _ \<Rightarrow> []))"

primrec make_visit ::
  "dispatch_fn \<Rightarrow> hook \<Rightarrow> jsval list option \<Rightarrow> ref \<Rightarrow> visit \<Rightarrow> world \<Rightarrow> unit result" where
  "make_visit D h args ctx (Override d) w = call_dsp D d h args ctx w"
| "make_visit D h args ctx (Instance f) w = apply_cb D f None (Some ctx) (args_or_empty args) w"
| "make_visit D h args ctx (Bubble r) w = D r h args (Some ctx) w"

primrec visit_all ::
  "dispatch_fn \<Rightarrow> hook \<Rightarrow> jsval list option \<Rightarrow> ref \<Rightarrow> visit list \<Rightarrow> world \<Rightarrow> unit result" where
  "visit_all D h args ctx [] w = Return () w"
| "visit_all D h args ctx (v # vs) w =
     bind (make_visit D h args ctx v w) (\<lambda>_. visit_all D h args ctx vs)"

section \<open>Reading a result\<close>

text \<open>The world a call left, if it returned or threw, and the callbacks its trace names.\<close>

primrec ending :: "'a result \<Rightarrow> world option" where
  "ending Diverge = None"
| "ending (Threw e w) = Some w"
| "ending (Return x w) = Some w"

primrec label :: "event \<Rightarrow> nat" where
  "label (Call l h ctx args snap) = l"

definition labels :: "'a result \<Rightarrow> nat list option" where
  "labels r = map_option (\<lambda>w. map label (trace w)) (ending r)"

section \<open>Predicates for the proofs\<close>

text \<open>\<open>after r P\<close>: if the call returned or threw, \<open>P\<close> holds of the world it left.\<close>

primrec after :: "'a result \<Rightarrow> (world \<Rightarrow> bool) \<Rightarrow> bool" where
  "after Diverge P = True"
| "after (Threw e w) P = P w"
| "after (Return x w) P = P w"

text \<open>\<open>post r R T\<close>: \<open>R\<close> holds of the world if the call returned, \<open>T\<close> if it threw.\<close>

primrec post :: "'a result \<Rightarrow> (world \<Rightarrow> bool) \<Rightarrow> (world \<Rightarrow> bool) \<Rightarrow> bool" where
  "post Diverge R T = True"
| "post (Threw e w) R T = T w"
| "post (Return x w) R T = R w"

text \<open>
  An invocation recorded in the trace saw its receiver as it is in \<open>w\<close>, or as it is
  in \<open>w\<close> with \<^verbatim>\<open>$$dsp\<close> cleared.
\<close>

primrec seen_in :: "world \<Rightarrow> event \<Rightarrow> bool" where
  "seen_in w (Call l h ctx args snap) =
     (case ctx of
        None \<Rightarrow> snap = None
      | Some r \<Rightarrow> snap = Some (objs w r) \<or> snap = Some ((objs w r)\<lparr>dsp := None\<rparr>))"

text \<open>
  What dispatching hooks may change: the \<^verbatim>\<open>$$dsp\<close> of an object may end cleared, and
  the trace grows by invocations that saw the objects as they were. \<open>hooks_kept\<close>: no
  object has changed at all.
\<close>

definition hooks_frame :: "world \<Rightarrow> world \<Rightarrow> bool" where
  "hooks_frame w w' \<longleftrightarrow>
     (\<forall>r. objs w' r = objs w r \<or> objs w' r = (objs w r)\<lparr>dsp := None\<rparr>) \<and>
     canceled w' = canceled w \<and> promises w' = promises w \<and> reactions w' = reactions w \<and>
     fresh w' = fresh w \<and> queue w' = queue w \<and> requests w' = requests w \<and>
     (\<exists>t. trace w' = trace w @ t \<and> list_all (seen_in w) t)"

definition hooks_kept :: "world \<Rightarrow> world \<Rightarrow> bool" where
  "hooks_kept w w' \<longleftrightarrow> hooks_frame w w' \<and> objs w' = objs w"

text \<open>\<open>on_return r Q\<close>: if the call returned, \<open>Q\<close> holds of the value and the world.\<close>

primrec on_return :: "'a result \<Rightarrow> ('a \<Rightarrow> world \<Rightarrow> bool) \<Rightarrow> bool" where
  "on_return Diverge Q = True"
| "on_return (Threw e w) Q = True"
| "on_return (Return x w) Q = Q x w"

text \<open>The world a call left, changed by \<open>f\<close>.\<close>

primrec and_then :: "'a result \<Rightarrow> (world \<Rightarrow> world) \<Rightarrow> 'a result" where
  "and_then Diverge f = Diverge"
| "and_then (Threw e w) f = Threw e (f w)"
| "and_then (Return x w) f = Return x (f w)"

text \<open>Two worlds with the same promises, queue, transport calls and cancel marks.\<close>

definition same_store :: "world \<Rightarrow> world \<Rightarrow> bool" where
  "same_store w w' \<longleftrightarrow>
     canceled w' = canceled w \<and> promises w' = promises w \<and> reactions w' = reactions w \<and>
     fresh w' = fresh w \<and> queue w' = queue w \<and> requests w' = requests w"

text \<open>
  An invocation with the receiver \<open>r\<close> saw \<^verbatim>\<open>$response\<close> null and \<^verbatim>\<open>$error\<close> false.
\<close>

primrec sees_reset :: "ref \<Rightarrow> event \<Rightarrow> bool" where
  "sees_reset r (Call l h ctx args snap) =
     (ctx = Some r \<longrightarrow> (\<exists>x. snap = Some x \<and> response x = JNull \<and> error x = JFalse))"

section \<open>The frame of hook dispatch\<close>

lemma after_mono: "after r Q \<Longrightarrow> (\<And>w. Q w \<Longrightarrow> P w) \<Longrightarrow> after r P"
  by (cases r) auto

lemma post_mono:
  "post r R T \<Longrightarrow> (\<And>w. R w \<Longrightarrow> R' w) \<Longrightarrow> (\<And>w. T w \<Longrightarrow> T' w) \<Longrightarrow> post r R' T'"
  by (cases r) auto

lemma post_after: "post r R T \<Longrightarrow> (\<And>w. R w \<Longrightarrow> P w) \<Longrightarrow> (\<And>w. T w \<Longrightarrow> P w) \<Longrightarrow> after r P"
  by (cases r) auto

lemma hooks_frame_refl: "hooks_frame w w"
  by (simp add: hooks_frame_def)

lemma hooks_kept_refl: "hooks_kept w w"
  by (simp add: hooks_kept_def hooks_frame_refl)

lemma hooks_kept_frame: "hooks_kept w w' \<Longrightarrow> hooks_frame w w'"
  by (simp add: hooks_kept_def)

lemma seen_in_frame:
  assumes "\<forall>r. objs w' r = objs w r \<or> objs w' r = (objs w r)\<lparr>dsp := None\<rparr>"
    and "seen_in w' ev"
  shows "seen_in w ev"
proof (cases ev)
  case (Call l h ctx args snap)
  show ?thesis
  proof (cases ctx)
    case None
    with assms(2) Call show ?thesis by simp
  next
    case (Some r)
    from assms(1) have "objs w' r = objs w r \<or> objs w' r = (objs w r)\<lparr>dsp := None\<rparr>" ..
    with assms(2) Call Some show ?thesis by auto
  qed
qed

lemma hooks_frame_trans:
  assumes "hooks_frame w w1" and "hooks_frame w1 w2"
  shows "hooks_frame w w2"
proof -
  from assms obtain t t' where t: "trace w1 = trace w @ t" "list_all (seen_in w) t"
    and t': "trace w2 = trace w1 @ t'" "list_all (seen_in w1) t'"
    unfolding hooks_frame_def by blast
  have o1: "\<forall>r. objs w1 r = objs w r \<or> objs w1 r = (objs w r)\<lparr>dsp := None\<rparr>"
    using assms(1) by (simp add: hooks_frame_def)
  have o2: "\<forall>r. objs w2 r = objs w1 r \<or> objs w2 r = (objs w1 r)\<lparr>dsp := None\<rparr>"
    using assms(2) by (simp add: hooks_frame_def)
  have o: "objs w2 r = objs w r \<or> objs w2 r = (objs w r)\<lparr>dsp := None\<rparr>" for r
    using o1 [rule_format, of r] o2 [rule_format, of r] by auto
  have "list_all (seen_in w) t'"
    using t'(2) seen_in_frame [OF o1] by (auto simp: list_all_iff)
  with t t' have "trace w2 = trace w @ (t @ t') \<and> list_all (seen_in w) (t @ t')"
    by simp
  then have "\<exists>u. trace w2 = trace w @ u \<and> list_all (seen_in w) u" ..
  with o assms show ?thesis
    by (simp add: hooks_frame_def)
qed

lemma hooks_kept_trans: "hooks_kept w w1 \<Longrightarrow> hooks_kept w1 w2 \<Longrightarrow> hooks_kept w w2"
  unfolding hooks_kept_def by (auto intro: hooks_frame_trans)

lemma hooks_frame_set_dsp_None: "hooks_frame w (set_dsp r None w)"
  by (simp add: hooks_frame_def set_dsp_def upd_obj_def)

lemma hooks_kept_record_call: "hooks_kept w (record_call l h ctx args w)"
  by (cases ctx) (simp_all add: hooks_kept_def hooks_frame_def record_call_def)

lemma post_kept_bind:
  assumes "post r (hooks_kept w) (hooks_frame w)"
    and "\<And>x w'. hooks_kept w w' \<Longrightarrow> post (f x w') (hooks_kept w') (hooks_frame w')"
  shows "post (bind r f) (hooks_kept w) (hooks_frame w)"
proof (cases r)
  case (Return x w')
  with assms(1) have k: "hooks_kept w w'" by simp
  from assms(2) [OF k, of x] show ?thesis
    unfolding Return bind.simps
    by (rule post_mono) (blast intro: hooks_kept_trans k hooks_frame_trans hooks_kept_frame)+
qed (use assms(1) in simp_all)

lemma run_actions_frame:
  assumes D: "\<And>this h args ctx w. post (D this h args ctx w) (hooks_kept w) (hooks_frame w)"
  shows "post (run_actions D as w) (hooks_kept w) (hooks_frame w)"
proof (induction as arbitrary: w)
  case Nil
  show ?case by (simp add: hooks_kept_refl)
next
  case (Cons a as)
  have "post (run_action D a w) (hooks_kept w) (hooks_frame w)"
    by (cases a) (simp_all add: hooks_frame_refl D)
  then show ?case
    by (simp add: post_kept_bind Cons.IH)
qed

lemma apply_cb_frame:
  assumes D: "\<And>this h args ctx w. post (D this h args ctx w) (hooks_kept w) (hooks_frame w)"
  shows "post (apply_cb D f h ctx args w) (hooks_kept w) (hooks_frame w)"
proof (cases f)
  case (Callback l body)
  let ?w = "record_call l h ctx args w"
  have "post (run_actions D body ?w) (hooks_kept ?w) (hooks_frame ?w)"
    by (rule run_actions_frame [OF D])
  then show ?thesis
    unfolding Callback apply_cb.simps
    by (rule post_mono)
       (blast intro: hooks_kept_trans hooks_frame_trans hooks_kept_frame hooks_kept_record_call)+
qed

lemma run_cbs_frame:
  assumes D: "\<And>this h args ctx w. post (D this h args ctx w) (hooks_kept w) (hooks_frame w)"
  shows "post (run_cbs D fs ctx args w) (hooks_kept w) (hooks_frame w)"
  by (induction fs arbitrary: w)
     (simp_all add: hooks_kept_refl post_kept_bind apply_cb_frame [OF D])

lemma apply_member_frame:
  assumes D: "\<And>this h args ctx w. post (D this h args ctx w) (hooks_kept w) (hooks_frame w)"
  shows "post (apply_member D x ctx args w) (hooks_kept w) (hooks_frame w)"
  by (cases x)
     (simp_all add: apply_member_def apply_cb_frame [OF D] hooks_kept_refl hooks_frame_refl)

lemma call_dsp_frame:
  assumes D: "\<And>this h args ctx w. post (D this h args ctx w) (hooks_kept w) (hooks_frame w)"
  shows "post (call_dsp D f h args ctx w) (hooks_kept w) (hooks_frame w)"
proof -
  have "(\<forall>this h args ctx w. post (D this h args ctx w) (hooks_kept w) (hooks_frame w)) \<Longrightarrow>
        post (call_dsp D f h args ctx w) (hooks_kept w) (hooks_frame w)"
  proof (induction D f h args ctx w rule: call_dsp.induct)
    case (1 D f h args ctx w)
    then show ?case by (simp add: apply_cb_frame)
  next
    case (2 D m h args ctx w)
    then show ?case by (simp add: apply_member_frame)
  next
    case (3 D oldDispatcher m h args ctx w)
    show ?case
      unfolding call_dsp.simps
    proof (rule post_kept_bind)
      show "post (call_dsp D oldDispatcher h args ctx w) (hooks_kept w) (hooks_frame w)"
        using 3 by blast
    next
      fix x w'
      show "post (apply_member D (member_of m h) ctx (args_or_empty args) w')
                 (hooks_kept w') (hooks_frame w')"
        using 3(2) by (simp add: apply_member_frame)
    qed
  qed
  with D show ?thesis by blast
qed

text \<open>The three visits of \<^verbatim>\<open>$dispatch\<close>, before \<^verbatim>\<open>$$dsp\<close> is set again.\<close>

lemma dispatch_visits_frame:
  assumes D: "\<And>this h args ctx w. post (D this h args ctx w) (hooks_kept w) (hooks_frame w)"
  shows "post
    (bind (case d of None \<Rightarrow> Return () w0 | Some f \<Rightarrow> call_dsp D f h args c w0)
      (\<lambda>_ w1. bind (run_cbs D (cbs (objs w1 this) h) c (args_or_empty args) w1)
        (\<lambda>_ w2. case scope (objs w2 this) of
                   Some (Dispatchable s) \<Rightarrow> D s h args (Some c) w2
                 | _ \<Rightarrow> (case otype (objs w2 this) of
                           None \<Rightarrow> Return () w2
                         | Some Plain \<Rightarrow> Threw JTypeError w2
                         | Some (Dispatchable t) \<Rightarrow> D t h args (Some c) w2))))
    (hooks_kept w0) (hooks_frame w0)"
proof -
  have bubble: "post (case scope (objs w2 this) of
                        Some (Dispatchable s) \<Rightarrow> D s h args (Some c) w2
                      | _ \<Rightarrow> (case otype (objs w2 this) of
                                None \<Rightarrow> Return () w2
                              | Some Plain \<Rightarrow> Threw JTypeError w2
                              | Some (Dispatchable t) \<Rightarrow> D t h args (Some c) w2))
                     (hooks_kept w2) (hooks_frame w2)" for w2
    by (simp add: hooks_kept_refl hooks_frame_refl D split: option.split parent.split)
  have first: "post (case d of None \<Rightarrow> Return () w0 | Some f \<Rightarrow> call_dsp D f h args c w0)
                 (hooks_kept w0) (hooks_frame w0)"
    by (simp add: hooks_kept_refl call_dsp_frame [OF D] split: option.split)
  show ?thesis
    by (intro post_kept_bind first run_cbs_frame [OF D] bubble)
qed

lemma bind_assoc: "bind (bind r f) g = bind r (\<lambda>x w. bind (f x w) g)"
  by (cases r) simp_all

lemma set_dsp_restore:
  assumes "objs w3 = objs (set_dsp this None w)"
  shows "objs (set_dsp this (dsp (objs w this)) w3) = objs w"
  using assms by (auto simp: set_dsp_def upd_obj_def fun_eq_iff)

lemma set_dsp_same:
  assumes "dsp (objs w this) = d"
  shows "set_dsp this d w = w"
proof -
  have "(objs w this)\<lparr>dsp := d\<rparr> = objs w this"
    using assms by (cases "objs w this") simp
  then show ?thesis by (simp add: set_dsp_def upd_obj_def)
qed

lemma dispatch_body_frame:
  assumes D: "\<And>this h args ctx w. post (D this h args ctx w) (hooks_kept w) (hooks_frame w)"
  shows "post (dispatch_body D this h args ctx w) (hooks_kept w) (hooks_frame w)"
proof -
  define c where "c = (case ctx of None \<Rightarrow> this | Some c \<Rightarrow> c)"
  define d where "d = dsp (objs w this)"
  define w0 where "w0 = set_dsp this None w"
  define visits where "visits =
    bind (case d of None \<Rightarrow> Return () w0 | Some f \<Rightarrow> call_dsp D f h args c w0)
      (\<lambda>_ w1. bind (run_cbs D (cbs (objs w1 this) h) c (args_or_empty args) w1)
        (\<lambda>_ w2. case scope (objs w2 this) of
                   Some (Dispatchable s) \<Rightarrow> D s h args (Some c) w2
                 | _ \<Rightarrow> (case otype (objs w2 this) of
                           None \<Rightarrow> Return () w2
                         | Some Plain \<Rightarrow> Threw JTypeError w2
                         | Some (Dispatchable t) \<Rightarrow> D t h args (Some c) w2)))"
  have w0: "d = None \<Longrightarrow> w0 = w"
    unfolding w0_def d_def by (rule set_dsp_same)
  have body: "dispatch_body D this h args ctx w = bind visits (\<lambda>_ w3. Return () (set_dsp this d w3))"
    unfolding dispatch_body_def Let_def visits_def c_def [symmetric] d_def [symmetric]
    by (cases d) (simp_all add: w0 bind_assoc, simp add: w0_def)
  have v: "post visits (hooks_kept w0) (hooks_frame w0)"
    unfolding visits_def by (rule dispatch_visits_frame [OF D])
  have f0: "hooks_frame w w0"
    unfolding w0_def by (rule hooks_frame_set_dsp_None)
  show ?thesis
  proof (cases visits)
    case Diverge
    then show ?thesis by (simp add: body)
  next
    case (Threw e w')
    with v have "hooks_frame w0 w'" by simp
    with f0 have "hooks_frame w w'" by (rule hooks_frame_trans)
    with Threw show ?thesis by (simp add: body)
  next
    case (Return x w3)
    with v have k: "hooks_kept w0 w3" by simp
    then have o: "objs (set_dsp this d w3) = objs w"
      unfolding d_def w0_def hooks_kept_def by (simp add: set_dsp_restore)
    from k f0 have "hooks_frame w w3"
      by (blast intro: hooks_frame_trans hooks_kept_frame)
    then have "hooks_frame w (set_dsp this d w3)"
      using o by (simp add: hooks_frame_def set_dsp_def upd_obj_def)
    with o Return show ?thesis by (simp add: body hooks_kept_def)
  qed
qed

lemma dispatch_frame:
  "post (dispatch n this h args ctx w) (hooks_kept w) (hooks_frame w)"
  by (induction n arbitrary: this h args ctx w) (simp_all add: dispatch_body_frame)

section \<open>Lemmas on hook dispatch\<close>

lemmas world_defs = upd_obj_def set_dsp_def set_promise_def set_status_def record_call_def
  init_def new_obj_def on_def cbs_def args_or_empty_def labels_def dispatch_body_def Let_def
  prototype_members_def member_of_def apply_member_def

lemma bind_cong_post:
  assumes "post r R T" and "\<And>x w'. R w' \<Longrightarrow> f x w' = g x w'"
  shows "bind r f = bind r g"
  using assms by (cases r) simp_all

lemma bind_Return: "bind r (\<lambda>x w. Return x w) = r"
  by (cases r) simp_all

lemma bind_Return_unit: "bind r (\<lambda>_. Return ()) = (r :: unit result)"
  by (cases r) simp_all

lemma bind_Return_eta: "bind r Return = r"
  by (cases r) simp_all

lemma visit_all_Nil_fun: "visit_all D h args ctx [] = Return ()"
  by (rule ext) simp

lemma visit_all_append_fun:
  "visit_all D h args ctx (xs @ ys) =
     (\<lambda>w. bind (visit_all D h args ctx xs w) (\<lambda>_. visit_all D h args ctx ys))"
proof (induction xs)
  case Nil
  show ?case by simp
next
  case (Cons v vs)
  show ?case by (rule ext) (simp add: Cons.IH bind_assoc)
qed

lemma visit_all_Instance_fun:
  "visit_all D h args ctx (map Instance fs) = run_cbs D fs ctx (args_or_empty args)"
proof (induction fs)
  case Nil
  show ?case by (rule ext) simp
next
  case (Cons f fs)
  show ?case by (rule ext) (simp add: Cons.IH)
qed

lemma cbs_dsp [simp]: "cbs (x\<lparr>dsp := d\<rparr>) h = cbs x h"
  by (simp add: cbs_def)

lemma objs_set_dsp: "objs (set_dsp r d w) = (objs w)(r := (objs w r)\<lparr>dsp := d\<rparr>)"
  by (simp add: set_dsp_def upd_obj_def)

lemma dispatch_as_visits:
  assumes "scope (objs w this) = Some (Dispatchable s) \<or> otype (objs w this) \<noteq> Some Plain"
  shows "dispatch (Suc n) this h args ctx w =
     bind (visit_all (dispatch n) h args (case ctx of None \<Rightarrow> this | Some c \<Rightarrow> c)
             (hook_visits (objs w this) h) (set_dsp this None w))
       (\<lambda>_ w'. Return () (set_dsp this (dsp (objs w this)) w'))"
proof -
  define D where "D = dispatch n"
  define c where "c = (case ctx of None \<Rightarrow> this | Some c \<Rightarrow> c)"
  define d where "d = dsp (objs w this)"
  define w0 where "w0 = set_dsp this None w"
  define x where "x = objs w this"
  define bubble where "bubble =
    (case scope x of
       Some (Dispatchable s) \<Rightarrow> [Bubble s]
     | _ \<Rightarrow> (case otype x of Some (Dispatchable t) \<Rightarrow> [Bubble t] | _ \<Rightarrow> []))"
  have D: "post (D this h args ctx w) (hooks_kept w) (hooks_frame w)" for this h args ctx w
    unfolding D_def by (rule dispatch_frame)
  have w0: "d = None \<Longrightarrow> w0 = w"
    unfolding w0_def d_def by (rule set_dsp_same)
  have x0: "objs w0 this = x\<lparr>dsp := None\<rparr>"
    by (simp add: w0_def x_def objs_set_dsp)
  have kept: "cbs (objs w' this) h = cbs x h \<and> scope (objs w' this) = scope x
              \<and> otype (objs w' this) = otype x" if "hooks_kept w0 w'" for w'
    using that x0 by (simp add: hooks_kept_def)
  have bub: "(case scope x of
                Some (Dispatchable s) \<Rightarrow> D s h args (Some c) w2
              | _ \<Rightarrow> (case otype x of
                        None \<Rightarrow> Return () w2
                      | Some Plain \<Rightarrow> Threw JTypeError w2
                      | Some (Dispatchable t) \<Rightarrow> D t h args (Some c) w2))
             = visit_all D h args c bubble w2" for w2
    using assms unfolding bubble_def x_def
    by (auto split: option.split parent.split simp: bind_Return_unit bind_Return_eta visit_all_Nil_fun)
  have first: "post (case d of None \<Rightarrow> Return () w0 | Some f \<Rightarrow> call_dsp D f h args c w0)
                 (hooks_kept w0) (hooks_frame w0)"
    by (simp add: hooks_kept_refl call_dsp_frame [OF D] split: option.split)
  have second: "post (run_cbs D (cbs x h) c (args_or_empty args) w1) (hooks_kept w0) (hooks_frame w0)"
    if "hooks_kept w0 w1" for w1
    by (rule post_mono [OF run_cbs_frame [OF D]])
       (blast intro: that hooks_kept_trans hooks_frame_trans hooks_kept_frame)+
  have lhs: "dispatch (Suc n) this h args ctx w =
     bind (case d of None \<Rightarrow> Return () w0 | Some f \<Rightarrow> call_dsp D f h args c w0)
       (\<lambda>_ w1. bind (run_cbs D (cbs (objs w1 this) h) c (args_or_empty args) w1)
       (\<lambda>_ w2. bind (case scope (objs w2 this) of
                        Some (Dispatchable s) \<Rightarrow> D s h args (Some c) w2
                      | _ \<Rightarrow> (case otype (objs w2 this) of
                                None \<Rightarrow> Return () w2
                              | Some Plain \<Rightarrow> Threw JTypeError w2
                              | Some (Dispatchable t) \<Rightarrow> D t h args (Some c) w2))
       (\<lambda>_ w3. Return () (set_dsp this d w3))))"
    unfolding dispatch.simps dispatch_body_def Let_def D_def [symmetric] c_def [symmetric]
      d_def [symmetric]
    by (cases d) (simp_all add: w0, simp add: w0_def)
  also have "\<dots> =
     bind (case d of None \<Rightarrow> Return () w0 | Some f \<Rightarrow> call_dsp D f h args c w0)
       (\<lambda>_ w1. bind (run_cbs D (cbs x h) c (args_or_empty args) w1)
       (\<lambda>_ w2. bind (visit_all D h args c bubble w2)
       (\<lambda>_ w3. Return () (set_dsp this d w3))))"
  proof (rule bind_cong_post [OF first])
    fix u w1
    assume k1: "hooks_kept w0 w1"
    have "bind (run_cbs D (cbs x h) c (args_or_empty args) w1)
            (\<lambda>_ w2. bind (case scope (objs w2 this) of
                        Some (Dispatchable s) \<Rightarrow> D s h args (Some c) w2
                      | _ \<Rightarrow> (case otype (objs w2 this) of
                                None \<Rightarrow> Return () w2
                              | Some Plain \<Rightarrow> Threw JTypeError w2
                              | Some (Dispatchable t) \<Rightarrow> D t h args (Some c) w2))
              (\<lambda>_ w3. Return () (set_dsp this d w3)))
        = bind (run_cbs D (cbs x h) c (args_or_empty args) w1)
            (\<lambda>_ w2. bind (visit_all D h args c bubble w2)
              (\<lambda>_ w3. Return () (set_dsp this d w3)))"
      by (rule bind_cong_post [OF second [OF k1]])
         (simp add: kept bub cong: option.case_cong parent.case_cong)
    then show "bind (run_cbs D (cbs (objs w1 this) h) c (args_or_empty args) w1)
            (\<lambda>_ w2. bind (case scope (objs w2 this) of
                        Some (Dispatchable s) \<Rightarrow> D s h args (Some c) w2
                      | _ \<Rightarrow> (case otype (objs w2 this) of
                                None \<Rightarrow> Return () w2
                              | Some Plain \<Rightarrow> Threw JTypeError w2
                              | Some (Dispatchable t) \<Rightarrow> D t h args (Some c) w2))
              (\<lambda>_ w3. Return () (set_dsp this d w3)))
        = bind (run_cbs D (cbs x h) c (args_or_empty args) w1)
            (\<lambda>_ w2. bind (visit_all D h args c bubble w2)
              (\<lambda>_ w3. Return () (set_dsp this d w3)))"
      by (simp add: kept [OF k1])
  qed
  also have "\<dots> = bind (visit_all D h args c (hook_visits x h) w0)
                     (\<lambda>_ w'. Return () (set_dsp this d w'))"
    unfolding hook_visits_def bubble_def [symmetric] x_def [symmetric] d_def
    by (cases "dsp x")
       (simp_all add: visit_all_append_fun visit_all_Instance_fun bind_assoc bind_Return_unit x_def)
  finally show ?thesis
    unfolding D_def c_def d_def w0_def x_def .
qed





lemma dispatch_body_visits:
  assumes D: "\<And>this h args ctx w. post (D this h args ctx w) (hooks_kept w) (hooks_frame w)"
  shows "\<exists>visits :: unit result.
     dispatch_body D this h args ctx w =
       bind visits (\<lambda>_ w3. Return () (set_dsp this (dsp (objs w this)) w3)) \<and>
     post visits (hooks_kept (set_dsp this None w)) (hooks_frame (set_dsp this None w))"
proof -
  define c where "c = (case ctx of None \<Rightarrow> this | Some c \<Rightarrow> c)"
  define d where "d = dsp (objs w this)"
  define w0 where "w0 = set_dsp this None w"
  define visits :: "unit result" where "visits =
    bind (case d of None \<Rightarrow> Return () w0 | Some f \<Rightarrow> call_dsp D f h args c w0)
      (\<lambda>_ w1. bind (run_cbs D (cbs (objs w1 this) h) c (args_or_empty args) w1)
        (\<lambda>_ w2. case scope (objs w2 this) of
                   Some (Dispatchable s) \<Rightarrow> D s h args (Some c) w2
                 | _ \<Rightarrow> (case otype (objs w2 this) of
                           None \<Rightarrow> Return () w2
                         | Some Plain \<Rightarrow> Threw JTypeError w2
                         | Some (Dispatchable t) \<Rightarrow> D t h args (Some c) w2)))"
  have w0: "d = None \<Longrightarrow> w0 = w"
    unfolding w0_def d_def by (rule set_dsp_same)
  have body: "dispatch_body D this h args ctx w = bind visits (\<lambda>_ w3. Return () (set_dsp this d w3))"
    unfolding dispatch_body_def Let_def visits_def c_def [symmetric] d_def [symmetric]
    by (cases d) (simp_all add: w0 bind_assoc, simp add: w0_def)
  have v: "post visits (hooks_kept w0) (hooks_frame w0)"
    unfolding visits_def by (rule dispatch_visits_frame [OF D])
  from body v show ?thesis
    unfolding d_def w0_def by blast
qed

section \<open>The order of a dispatch\<close>



section \<open>The override during a dispatch\<close>

text \<open>
  C5 fails on the code. \<^verbatim>\<open>$dispatch\<close> clears \<^verbatim>\<open>$$dsp\<close> before it calls the override and
  sets it again in its last statement (\<^verbatim>\<open>this.$$dsp = dsp; // reenable dsp.\<close>), with no
  \<^verbatim>\<open>finally\<close> around the calls in between, where \<^verbatim>\<open>$decorate\<close> has one for the same
  purpose. So a dispatch in which a callback throws leaves \<^verbatim>\<open>$$dsp\<close> cleared. An
  instance callback of the hook \<^verbatim>\<open>h\<close> throws; inside a decorated context the body
  dispatches \<^verbatim>\<open>h\<close>, catches the exception and reads \<^verbatim>\<open>$dispatcher()\<close>: it gets nothing.
  With a callback that does not throw the same body gets the override of the context.
\<close>

theorem dispatch_throw_leaves_override_off:
  "(\<exists>w'. decorate 0 (HookMapping [])
      (\<lambda>u. case dispatch 1 0 ''h'' None None u of
              Diverge \<Rightarrow> Diverge
            | Threw e u' \<Rightarrow> Return (dispatcher 0 u') u'
            | Return x u' \<Rightarrow> Return (dispatcher 0 u') u')
      (the (run 0 [On 0 ''h'' (Callback 1 [Throw JNull])] init)) = Return None w') \<and>
   (\<exists>w'. decorate 0 (HookMapping [])
      (\<lambda>u. case dispatch 1 0 ''h'' None None u of
              Diverge \<Rightarrow> Diverge
            | Threw e u' \<Rightarrow> Return (dispatcher 0 u') u'
            | Return x u' \<Rightarrow> Return (dispatcher 0 u') u')
      (the (run 0 [On 0 ''h'' (Callback 1 [])] init)) = Return (Some (Decorated None [])) w')"
  by (simp add: world_defs decorate_def dispatcher_def)

section \<open>Decorated contexts\<close>

text \<open>
  C6, as the code has it. \<^verbatim>\<open>$decorate\<close> sets \<^verbatim>\<open>$$dsp\<close> for the time of the body and
  sets it back to the value it had when the body returns and when it throws. What it
  sets depends on \<^verbatim>\<open>_hooks\<close>: a hook mapping is composed with the previous override
  (the closure calls the previous override first, then the entry of the mapping for
  the hook, if there is one); a function is installed as it is, in place of the
  previous override; a falsy value clears the override for the body. The entry of the
  mapping is what \<^verbatim>\<open>_hooks[_hook]\<close> finds: for a hook with no function in the mapping and
  named like a member of \<^verbatim>\<open>Object.prototype\<close> that is the inherited member, and the
  closure calls it, which throws a \<^verbatim>\<open>TypeError\<close> for \<^verbatim>\<open>__proto__\<close>,
  \<^verbatim>\<open>__defineGetter__\<close> and \<^verbatim>\<open>__defineSetter__\<close> and does nothing for the others.
\<close>

theorem decorate_installs_and_restores:
  "after (decorate this hs body w) (\<lambda>w'. dsp (objs w' this) = dsp (objs w this)) \<and>
   decorate this hs (\<lambda>u. Return (dispatcher this u) u) w =
     Return (case hs of
               HookFunction g \<Rightarrow> Some g
             | Falsy \<Rightarrow> None
             | HookMapping m \<Rightarrow> Some (Decorated (dispatcher this w) m)) w \<and>
   (map_of m h \<noteq> None \<or> h \<notin> set prototype_members \<longrightarrow>
      call_dsp D (Decorated old m) h args ctx u =
        bind (case old of None \<Rightarrow> Return () u | Some g \<Rightarrow> call_dsp D g h args ctx u)
          (\<lambda>_ u'. case map_of m h of
                     None \<Rightarrow> Return () u'
                   | Some extraCb \<Rightarrow> apply_cb D extraCb None (Some ctx) (args_or_empty args) u')) \<and>
   (map_of m h = None \<and> h \<in> set prototype_members \<longrightarrow>
      call_dsp D (Decorated old m) h args ctx u =
        bind (case old of None \<Rightarrow> Return () u | Some g \<Rightarrow> call_dsp D g h args ctx u)
          (\<lambda>_ u'. if h \<in> {''__proto__'', ''__defineGetter__'', ''__defineSetter__''}
                   then Threw JTypeError u' else Return () u'))"
proof -
  have restored: "after (decorate this hs body w) (\<lambda>w'. dsp (objs w' this) = dsp (objs w this))"
    by (cases "body (set_dsp this
                 (case hs of
                    HookFunction f \<Rightarrow> Some f
                  | Falsy \<Rightarrow> None
                  | HookMapping m \<Rightarrow> Some (Decorated (dsp (objs w this)) m)) w)")
       (simp_all add: decorate_def objs_set_dsp)
  have "set_dsp this (dsp (objs w this)) (set_dsp this d w) = w" for d
  proof -
    have "(objs w this)\<lparr>dsp := dsp (objs w this)\<rparr> = objs w this"
      by (cases "objs w this") simp
    then show ?thesis by (simp add: set_dsp_def upd_obj_def)
  qed
  then have installed: "decorate this hs (\<lambda>u. Return (dispatcher this u) u) w =
     Return (case hs of
               HookFunction g \<Rightarrow> Some g
             | Falsy \<Rightarrow> None
             | HookMapping m \<Rightarrow> Some (Decorated (dispatcher this w) m)) w"
    by (simp add: decorate_def dispatcher_def objs_set_dsp split: hooks.split)
  have closure: "call_dsp D (Decorated old m) h args ctx u =
     bind (case old of None \<Rightarrow> Return () u | Some g \<Rightarrow> call_dsp D g h args ctx u)
       (\<lambda>_. apply_member D (member_of m h) ctx (args_or_empty args))"
    by (cases old) simp_all
  have found: "apply_member D (member_of m h) ctx (args_or_empty args) =
       (\<lambda>u'. case map_of m h of
                None \<Rightarrow> Return () u'
              | Some extraCb \<Rightarrow> apply_cb D extraCb None (Some ctx) (args_or_empty args) u')"
    if "map_of m h \<noteq> None \<or> h \<notin> set prototype_members"
    using that by (auto simp: apply_member_def member_of_def fun_eq_iff split: option.split)
  have inherited: "apply_member D (member_of m h) ctx (args_or_empty args) =
       (\<lambda>u'. if h \<in> {''__proto__'', ''__defineGetter__'', ''__defineSetter__''}
              then Threw JTypeError u' else Return () u')"
    if "map_of m h = None \<and> h \<in> set prototype_members"
    using that by (simp add: apply_member_def member_of_def fun_eq_iff)
  from restored installed closure found inherited show ?thesis by simp
qed

theorem decorate_installs_and_restores_witness:
  "labels (decorate 0 (HookMapping [(''h'', Callback 1 [])])
     (decorate 0 (HookMapping [(''h'', Callback 2 [])]) (dispatch 1 0 ''h'' None None)) init)
   = Some [1, 2] \<and>
   decorate 0 (HookMapping [(''h'', Callback 1 [])]) (\<lambda>u. Return (dispatcher 0 u) u) init =
     Return (Some (Decorated None [(''h'', Callback 1 [])])) init \<and>
   labels (call_dsp (dispatch 0)
             (Decorated (Some (Decorated None [(''h'', Callback 1 [])])) [(''h'', Callback 2 [])])
             ''h'' None 0 init)
   = Some [1, 2] \<and>
   call_dsp (dispatch 0) (Decorated None []) ''__proto__'' None 0 init = Threw JTypeError init"
proof -
  have "labels (decorate 0 (HookMapping [(''h'', Callback 1 [])])
     (decorate 0 (HookMapping [(''h'', Callback 2 [])]) (dispatch 1 0 ''h'' None None)) init)
   = Some [1, 2]"
    by (simp add: world_defs decorate_def)
  moreover from decorate_installs_and_restores
         [of 0 "HookMapping [(''h'', Callback 1 [])]" "\<lambda>u. Return (dispatcher 0 u) u" init]
  have "decorate 0 (HookMapping [(''h'', Callback 1 [])]) (\<lambda>u. Return (dispatcher 0 u) u) init =
     Return (Some (Decorated (dispatcher 0 init) [(''h'', Callback 1 [])])) init"
    by simp
  moreover have "dispatcher 0 init = None"
    by (simp add: dispatcher_def init_def new_obj_def)
  moreover have "map_of [(''h'', Callback 2 [])] ''h'' \<noteq> None \<or> ''h'' \<notin> set prototype_members"
    by simp
  with decorate_installs_and_restores
         [where this = 0 and hs = Falsy and body = "Return ()" and w = init
            and m = "[(''h'', Callback 2 [])]" and h = "''h''" and D = "dispatch 0"
            and old = "Some (Decorated None [(''h'', Callback 1 [])])" and args = None
            and ctx = 0 and u = init]
  have "call_dsp (dispatch 0)
          (Decorated (Some (Decorated None [(''h'', Callback 1 [])])) [(''h'', Callback 2 [])])
          ''h'' None 0 init =
        bind (call_dsp (dispatch 0) (Decorated None [(''h'', Callback 1 [])]) ''h'' None 0 init)
          (\<lambda>_ u'. apply_cb (dispatch 0) (Callback 2 []) None (Some 0) (args_or_empty None) u')"
    by simp
  then have "labels (call_dsp (dispatch 0)
          (Decorated (Some (Decorated None [(''h'', Callback 1 [])])) [(''h'', Callback 2 [])])
          ''h'' None 0 init) = Some [1, 2]"
    by (simp add: world_defs)
  moreover have "map_of [] ''__proto__'' = None \<and> ''__proto__'' \<in> set prototype_members"
    by (simp add: prototype_members_def)
  with decorate_installs_and_restores
         [where this = 0 and hs = Falsy and body = "Return ()" and w = init
            and m = "[]" and h = "''__proto__''" and D = "dispatch 0"
            and old = None and args = None and ctx = 0 and u = init]
  have "call_dsp (dispatch 0) (Decorated None []) ''__proto__'' None 0 init = Threw JTypeError init"
    by simp
  ultimately show ?thesis
    by simp
qed

text \<open>
  The claim as stated fails for a function: inside a context decorated with a mapping for
  the hook, \<^verbatim>\<open>$decorate\<close> with a function and a dispatch of the hook in its body calls
  the function only. The callback 1 of the outer context, the previous override, is not
  invoked.
\<close>

theorem decorate_function_drops_previous:
  "decorate 0 (HookMapping [(''h'', Callback 1 [])])
     (decorate 0 (HookFunction (Function (Callback 2 []))) (dispatch 1 0 ''h'' None None)) init
   = Return () (init\<lparr>trace := [Call 2 (Some ''h'') (Some 0) [] (Some new_obj)]\<rparr>)"
  by (simp add: world_defs decorate_def fun_eq_iff)

section \<open>Lemmas on the request functions\<close>

lemmas request_defs = send_def performRequest_def onResolved_def onRejected_def decorate_def
  dispatcher_def captured_hooks_def http_def q_then_def q_when_def q_reject_def alloc_def
  subscribe_def settle_def transport_settles_def cancel_def

lemma installed_captured:
  "(case captured_hooks c of HookFunction f \<Rightarrow> Some f | Falsy \<Rightarrow> None
    | HookMapping m \<Rightarrow> Some (Decorated old m)) = captured c"
  by (simp add: captured_hooks_def split: option.split)

lemma decorate_captured:
  "decorate (self c) (captured_hooks c) body w =
     and_then (body (set_dsp (self c) (captured c) w)) (set_dsp (self c) (dsp (objs w (self c))))"
  by (cases "body (set_dsp (self c) (captured c) w)")
     (simp_all add: decorate_def installed_captured)

lemma after_and_then: "after (and_then r f) P = after r (\<lambda>w. P (f w))"
  by (cases r) simp_all

lemma after_bind_same:
  "after r P \<Longrightarrow> (\<And>x w. P w \<Longrightarrow> after (f x w) P) \<Longrightarrow> after (bind r f) P"
  by (cases r) simp_all

lemma seen_in_reset:
  assumes "seen_in w ev" and "response (objs w r) = JNull" and "error (objs w r) = JFalse"
  shows "sees_reset r ev"
  using assms by (cases ev) (auto split: option.splits)

lemma performRequest_sees_reset:
  assumes "\<not> canceled w (options c)"
  shows "after (performRequest n c w)
     (\<lambda>w'. response (objs w' (self c)) = JNull \<and> error (objs w' (self c)) = JFalse \<and>
            (\<exists>t. trace w' = trace w @ t \<and> list_all (sees_reset (self c)) t))"
proof -
  let ?Q = "\<lambda>w'. response (objs w' (self c)) = JNull \<and> error (objs w' (self c)) = JFalse \<and>
            (\<exists>t. trace w' = trace w @ t \<and> list_all (sees_reset (self c)) t)"
  define w2 where "w2 = upd_obj (self c) (\<lambda>x. x\<lparr>response := JNull, error := JFalse\<rparr>)
                          (set_dsp (self c) (captured c) w)"
  have r2: "response (objs w2 (self c)) = JNull" "error (objs w2 (self c)) = JFalse"
    and t2: "trace w2 = trace w"
    by (simp_all add: w2_def upd_obj_def set_dsp_def)
  have fr: "?Q u" if "hooks_frame w2 u" for u
  proof -
    from that obtain t where t: "trace u = trace w2 @ t" "list_all (seen_in w2) t"
      unfolding hooks_frame_def by blast
    from that have "objs u (self c) = objs w2 (self c)
        \<or> objs u (self c) = (objs w2 (self c))\<lparr>dsp := None\<rparr>"
      unfolding hooks_frame_def by blast
    then have "response (objs u (self c)) = JNull \<and> error (objs u (self c)) = JFalse"
      using r2 by auto
    moreover have "list_all (sees_reset (self c)) t"
      using t(2) r2 by (auto simp: list_all_iff intro: seen_in_reset)
    ultimately show ?thesis using t(1) t2 by simp
  qed
  have "after (dispatch n (self c) ''before-request'' (Some [JConfig (options c)]) None w2)
          (hooks_frame w2)"
    by (rule post_after [OF dispatch_frame]) (simp_all add: hooks_kept_frame)
  then have d: "after (dispatch n (self c) ''before-request'' (Some [JConfig (options c)]) None w2)
          (\<lambda>u. ?Q (set_dsp (self c) (dsp (objs w (self c))) u))"
    by (rule after_mono) (use fr in \<open>simp add: set_dsp_def upd_obj_def\<close>)
  show ?thesis
    unfolding performRequest_def using assms
    apply (simp add: decorate_captured w2_def [symmetric])
    apply (rule after_bind_same)
     apply (simp add: after_and_then d)
    apply (simp add: http_def q_then_def alloc_def subscribe_def Let_def split: prod.split option.split)
    done
qed


lemma set_dsp_twice: "set_dsp r x (set_dsp r y w) = set_dsp r x w"
  by (simp add: set_dsp_def upd_obj_def)

lemma dsp_set_dsp: "dsp (objs (set_dsp r x w) r) = x"
  by (simp add: set_dsp_def upd_obj_def)

lemma and_then_and_then: "and_then (and_then r f) g = and_then r (\<lambda>w. g (f w))"
  by (cases r) simp_all

lemma bind_restored:
  assumes "\<And>v w y. k v (set_dsp r y w) = and_then (k v w) (set_dsp r y)"
  shows "bind (and_then B (set_dsp r x)) k =
         and_then (bind (and_then B (set_dsp r y)) k) (set_dsp r x)"
  by (cases B) (simp_all add: assms and_then_and_then set_dsp_twice)

lemma send_deferred:
  assumes "promise (objs w this) = Val p" and "p < fresh w" and "promises w p = None"
  shows "\<exists>w'. send n this opts s e w = Return () w' \<and> trace w' = trace w \<and>
     requests w' = requests w \<and> queue w' = queue w \<and> promise (objs w' this) = Val (fresh w) \<and>
     promises w' = (promises w)(fresh w := None) \<and> fresh w' = Suc (fresh w) \<and>
     canceled w' = canceled w \<and>
     reactions w' = (reactions w)(fresh w := [], p := reactions w p @
       [(Some (PerformRequest \<lparr>self = this, captured = dsp (objs w this), options = opts,
                               success = s, failure = e\<rparr>),
         Some (PerformRequest \<lparr>self = this, captured = dsp (objs w this), options = opts,
                               success = s, failure = e\<rparr>), fresh w)])"
  using assms
  by (simp add: send_def dispatcher_def upd_obj_def q_then_def alloc_def subscribe_def
      set_promise_def Let_def)

lemma alloc_set_dsp: "alloc s (set_dsp r x w) = (fresh w, set_dsp r x (snd (alloc s w)))"
  by (simp add: alloc_def set_dsp_def upd_obj_def)

lemma case_alloc: "(case alloc s w of (p, w1) \<Rightarrow> f p w1) = f (fresh w) (snd (alloc s w))"
  by (simp add: alloc_def)

lemma decorate_captured_at:
  "decorate (self c) (captured_hooks c) body (set_dsp (self c) x u) =
     and_then (body (set_dsp (self c) (captured c) u)) (set_dsp (self c) x)"
  by (simp add: decorate_captured set_dsp_twice dsp_set_dsp)

lemma handlers_under_captured:
  "performRequest m c (set_dsp (self c) x u) =
     and_then (performRequest m c (set_dsp (self c) (captured c) u)) (set_dsp (self c) x)"
  "onResolved m c v (set_dsp (self c) x u) =
     and_then (onResolved m c v (set_dsp (self c) (captured c) u)) (set_dsp (self c) x)"
  "onRejected m c v (set_dsp (self c) x u) =
     and_then (onRejected m c v (set_dsp (self c) (captured c) u)) (set_dsp (self c) x)"
proof -
  have c: "canceled (set_dsp r y w) = canceled w" for r y w
    by (simp add: set_dsp_def upd_obj_def)
  have st: "set_status r CANCELED (set_dsp r y w) = set_dsp r y (set_status r CANCELED w)" for r y w
    by (cases "objs w r") (simp add: set_dsp_def set_status_def upd_obj_def)
  show "performRequest m c (set_dsp (self c) x u) =
     and_then (performRequest m c (set_dsp (self c) (captured c) u)) (set_dsp (self c) x)"
  proof (cases "canceled u (options c)")
    case True
    then show ?thesis
      by (simp add: performRequest_def c st q_when_def alloc_set_dsp set_dsp_twice case_alloc)
  next
    case False
    then show ?thesis
      unfolding performRequest_def c
      by (simp add: decorate_captured_at)
         (rule bind_restored,
          simp add: http_def q_then_def alloc_def subscribe_def set_dsp_def upd_obj_def Let_def)
  qed
  show "onResolved m c v (set_dsp (self c) x u) =
     and_then (onResolved m c v (set_dsp (self c) (captured c) u)) (set_dsp (self c) x)"
  proof (cases "canceled u (options c)")
    case True
    then show ?thesis
      by (simp add: onResolved_def c st set_dsp_twice)
  next
    case False
    then show ?thesis
      unfolding onResolved_def c
      by (simp add: decorate_captured_at)
         (rule bind_restored, simp)
  qed
  show "onRejected m c v (set_dsp (self c) x u) =
     and_then (onRejected m c v (set_dsp (self c) (captured c) u)) (set_dsp (self c) x)"
  proof (cases "canceled u (options c)")
    case True
    then show ?thesis
      by (simp add: onRejected_def c st set_dsp_twice)
  next
    case False
    then show ?thesis
      unfolding onRejected_def c
      by (simp add: decorate_captured_at)
         (rule bind_restored,
          simp add: q_reject_def alloc_def set_dsp_def upd_obj_def Let_def)
  qed
qed


section \<open>The reset before the request\<close>

text \<open>
  C10. For an operation that is not canceled, \<^verbatim>\<open>performRequest\<close> sets \<^verbatim>\<open>$response\<close> to
  \<^verbatim>\<open>null\<close> and \<^verbatim>\<open>$error\<close> to \<^verbatim>\<open>false\<close> and then dispatches \<^verbatim>\<open>before-request\<close>:
  every function invoked from there on with the object as receiver (the override, the
  instance callbacks, the callbacks of scope and type, whatever they dispatch in turn)
  sees both as they were reset, not the response of an earlier operation, and both are
  still so when \<^verbatim>\<open>performRequest\<close> returns or throws.
\<close>

theorem before_request_sees_reset:
  "\<not> canceled w (options c) \<longrightarrow>
     after (performRequest n c w)
       (\<lambda>w'. response (objs w' (self c)) = JNull \<and> error (objs w' (self c)) = JFalse \<and>
              (\<exists>t. trace w' = trace w @ t \<and> list_all (sees_reset (self c)) t))"
  using performRequest_sees_reset [of w c n] by blast

theorem before_request_sees_reset_witness:
  "\<not> canceled (the (ending (on 0 ''before-request'' (Callback 1 [])
        (upd_obj 0 (\<lambda>x. x\<lparr>response := JData 9\<rparr>) init)))) 1 \<and>
   map_option trace (ending (performRequest 1
      \<lparr>self = 0, captured = None, options = 1, success = None, failure = None\<rparr>
      (the (ending (on 0 ''before-request'' (Callback 1 [])
        (upd_obj 0 (\<lambda>x. x\<lparr>response := JData 9\<rparr>) init)))))) =
   Some [Call 1 None (Some 0) [JConfig 1]
     (Some (new_obj\<lparr>cb := Some [(''before-request'', [Callback 1 []])],
                     response := JNull, error := JFalse\<rparr>))]"
proof -
  define w where "w = the (ending (on 0 ''before-request'' (Callback 1 [])
        (upd_obj 0 (\<lambda>x. x\<lparr>response := JData 9\<rparr>) init)))"
  define c where "c = \<lparr>self = 0, captured = None, options = 1, success = None, failure = None\<rparr>"
  have nc: "\<not> canceled w (options c)"
    by (simp add: w_def c_def world_defs)
  have ev: "map_option trace (ending (performRequest 1 c w)) =
     Some [Call 1 None (Some 0) [JConfig 1]
       (Some (new_obj\<lparr>cb := Some [(''before-request'', [Callback 1 []])],
                       response := JNull, error := JFalse\<rparr>))]"
    by (simp add: w_def c_def world_defs request_defs)
  from nc before_request_sees_reset [of w c 1]
  have "after (performRequest 1 c w)
       (\<lambda>w'. response (objs w' (self c)) = JNull \<and> error (objs w' (self c)) = JFalse \<and>
              (\<exists>t. trace w' = trace w @ t \<and> list_all (sees_reset (self c)) t))"
    by blast
  with nc ev show ?thesis
    unfolding w_def c_def by simp
qed

section \<open>What the request functions do to the promises\<close>

lemma bind_eq_Return:
  "bind r f = Return x w' \<longleftrightarrow> (\<exists>y u. r = Return y u \<and> f y u = Return x w')"
  by (cases r) simp_all

lemma bind_unit_eq_Return:
  "bind r f = Return x w' \<longleftrightarrow> (\<exists>u. r = Return () u \<and> f () u = Return x w')"
  by (cases r) simp_all

lemma same_store_refl: "same_store w w"
  by (simp add: same_store_def)

lemma same_store_trans: "same_store w u \<Longrightarrow> same_store u v \<Longrightarrow> same_store w v"
  by (simp add: same_store_def)

lemma hooks_frame_store: "hooks_frame w w' \<Longrightarrow> same_store w w'"
  by (simp add: hooks_frame_def same_store_def)

lemma same_store_upd_obj: "same_store w (upd_obj r f w)"
  by (simp add: same_store_def upd_obj_def)

lemma on_same_store: "after (on this h f w) (same_store w)"
  by (simp add: on_def Let_def same_store_upd_obj split: option.split)

lemma same_store_set_dsp: "same_store w (set_dsp r d w)"
  by (simp add: set_dsp_def same_store_upd_obj)

lemma same_store_set_status: "same_store w (set_status r s w)"
  by (simp add: set_status_def same_store_upd_obj)

lemma hooks_frame_trace: "hooks_frame w w' \<Longrightarrow> \<exists>t. trace w' = trace w @ t"
  by (auto simp: hooks_frame_def)

text \<open>What the decorated body of a transport continuation does after its assignments.\<close>

lemma settled_hooks_frame:
  "post (bind (dispatch n r h args None w1)
           (\<lambda>_ w2. case f of None \<Rightarrow> Return () w2
                    | Some g \<Rightarrow> apply_cb (dispatch n) g None (Some r) xs w2))
     (hooks_kept w1) (hooks_frame w1)"
  by (rule post_kept_bind [OF dispatch_frame])
     (simp add: hooks_kept_refl apply_cb_frame [OF dispatch_frame] split: option.split)

lemma apply_cb_records:
  assumes D: "\<And>this h args ctx w. post (D this h args ctx w) (hooks_kept w) (hooks_frame w)"
    and "apply_cb D (Callback l body) h ctx args w = Return () w'"
  shows "\<exists>t. trace w' = trace w @ Call l h ctx args (map_option (objs w) ctx) # t"
proof -
  let ?w = "record_call l h ctx args w"
  from run_actions_frame [where D = D and as = body and w = ?w, OF D] assms(2) have "hooks_kept ?w w'"
    by simp
  then obtain t where "trace w' = trace ?w @ t"
    unfolding hooks_kept_def hooks_frame_def by blast
  then show ?thesis by (simp add: record_call_def)
qed

lemma run_cbs_records:
  assumes D: "\<And>this h args ctx w. post (D this h args ctx w) (hooks_kept w) (hooks_frame w)"
  shows "run_cbs D fs ctx args w = Return () w' \<Longrightarrow> Callback l body \<in> set fs \<Longrightarrow>
    \<exists>t1 t2. trace w' = trace w @ t1 @ Call l None (Some ctx) args (Some (objs w ctx)) # t2"
proof (induction fs arbitrary: w)
  case Nil
  then show ?case by simp
next
  case (Cons f fs)
  from Cons.prems(1) obtain w1 where a: "apply_cb D f None (Some ctx) args w = Return () w1"
    and r: "run_cbs D fs ctx args w1 = Return () w'"
    unfolding run_cbs.simps bind_unit_eq_Return by blast
  from apply_cb_frame [where D = D and f = f and h = None and ctx = "Some ctx" and args = args and w = w, OF D] a have k1: "hooks_kept w w1" by simp
  from run_cbs_frame [where D = D and fs = fs and ctx = ctx and args = args and w = w1, OF D] r have k2: "hooks_kept w1 w'" by simp
  show ?case
  proof (cases "f = Callback l body")
    case True
    from apply_cb_records [where D = D, OF D a [unfolded True]] obtain t where
      "trace w1 = trace w @ Call l None (Some ctx) args (Some (objs w ctx)) # t" by auto
    moreover from k2 obtain t' where "trace w' = trace w1 @ t'"
      unfolding hooks_kept_def hooks_frame_def by blast
    ultimately have "trace w' = trace w @ [] @ Call l None (Some ctx) args (Some (objs w ctx)) # (t @ t')"
      by simp
    then show ?thesis by blast
  next
    case False
    with Cons.prems(2) have "Callback l body \<in> set fs" by simp
    from Cons.IH [OF r this] obtain t1 t2 where
      "trace w' = trace w1 @ t1 @ Call l None (Some ctx) args (Some (objs w1 ctx)) # t2" by blast
    moreover from k1 obtain t where "trace w1 = trace w @ t" "objs w1 = objs w"
      unfolding hooks_kept_def hooks_frame_def by blast
    ultimately have "trace w' = trace w @ (t @ t1) @ Call l None (Some ctx) args (Some (objs w ctx)) # t2"
      by simp
    then show ?thesis by blast
  qed
qed

lemma dispatch_Suc:
  assumes "c = (case ctx of None \<Rightarrow> this | Some c \<Rightarrow> c)"
  shows "dispatch (Suc n) this h args ctx w =
     bind (case dsp (objs w this) of None \<Rightarrow> Return () (set_dsp this None w)
           | Some f \<Rightarrow> call_dsp (dispatch n) f h args c (set_dsp this None w))
       (\<lambda>_ w1. bind (run_cbs (dispatch n) (cbs (objs w1 this) h) c (args_or_empty args) w1)
       (\<lambda>_ w2. bind (case scope (objs w2 this) of
                        Some (Dispatchable s) \<Rightarrow> dispatch n s h args (Some c) w2
                      | _ \<Rightarrow> (case otype (objs w2 this) of
                                None \<Rightarrow> Return () w2
                              | Some Plain \<Rightarrow> Threw JTypeError w2
                              | Some (Dispatchable t) \<Rightarrow> dispatch n t h args (Some c) w2))
       (\<lambda>_ w3. Return () (set_dsp this (dsp (objs w this)) w3))))"
  unfolding assms
  by (cases "dsp (objs w this)") (simp_all add: dispatch_body_def set_dsp_same Let_def)

lemma dispatch_records:
  assumes "dispatch n this h args None w = Return () w'"
    and "Callback l body \<in> set (cbs (objs w this) h)"
  shows "\<exists>t1 t2. trace w' = trace w @ t1 @
     Call l None (Some this) (args_or_empty args) (Some ((objs w this)\<lparr>dsp := None\<rparr>)) # t2"
proof (cases n)
  case 0
  with assms(1) show ?thesis by simp
next
  case (Suc m)
  let ?w0 = "set_dsp this None w"
  let ?D = "dispatch m"
  have "this = (case None of None \<Rightarrow> this | Some c \<Rightarrow> c)" by simp
  from assms(1) [unfolded Suc dispatch_Suc [OF this] bind_unit_eq_Return, simplified]
  obtain w1 w2 w3 where
    first: "(case dsp (objs w this) of None \<Rightarrow> Return () ?w0
           | Some f \<Rightarrow> call_dsp ?D f h args this ?w0) = Return () w1"
    and second: "run_cbs ?D (cbs (objs w1 this) h) this (args_or_empty args) w1 = Return () w2"
    and third: "(case scope (objs w2 this) of
                        Some (Dispatchable s) \<Rightarrow> ?D s h args (Some this) w2
                      | _ \<Rightarrow> (case otype (objs w2 this) of
                                None \<Rightarrow> Return () w2
                              | Some Plain \<Rightarrow> Threw JTypeError w2
                              | Some (Dispatchable t) \<Rightarrow> ?D t h args (Some this) w2))
                 = Return () w3"
    and last: "w' = set_dsp this (dsp (objs w this)) w3"
    by blast
  have "post (case dsp (objs w this) of None \<Rightarrow> Return () ?w0
           | Some f \<Rightarrow> call_dsp ?D f h args this ?w0) (hooks_kept ?w0) (hooks_frame ?w0)"
    by (simp add: hooks_kept_refl call_dsp_frame [OF dispatch_frame] split: option.split)
  with first have k1: "hooks_kept ?w0 w1" by simp
  then obtain t1 where t1: "trace w1 = trace w @ t1" and o1: "objs w1 = objs ?w0"
    unfolding hooks_kept_def hooks_frame_def by (auto simp: set_dsp_def upd_obj_def)
  have x1: "objs w1 this = (objs w this)\<lparr>dsp := None\<rparr>"
    by (simp add: o1 set_dsp_def upd_obj_def)
  then have "cbs (objs w1 this) h = cbs (objs w this) h"
    by (simp add: cbs_def)
  with assms(2) have "Callback l body \<in> set (cbs (objs w1 this) h)" by simp
  from run_cbs_records [where D = "dispatch m", OF dispatch_frame second this] obtain ta tb where
    t2: "trace w2 = trace w1 @ ta @
       Call l None (Some this) (args_or_empty args) (Some (objs w1 this)) # tb" by blast
  have "post (case scope (objs w2 this) of
                        Some (Dispatchable s) \<Rightarrow> ?D s h args (Some this) w2
                      | _ \<Rightarrow> (case otype (objs w2 this) of
                                None \<Rightarrow> Return () w2
                              | Some Plain \<Rightarrow> Threw JTypeError w2
                              | Some (Dispatchable t) \<Rightarrow> ?D t h args (Some this) w2))
           (hooks_kept w2) (hooks_frame w2)"
    by (simp add: hooks_kept_refl hooks_frame_refl dispatch_frame split: option.split parent.split)
  with third have "hooks_kept w2 w3" by simp
  then obtain tc where t3: "trace w3 = trace w2 @ tc"
    unfolding hooks_kept_def hooks_frame_def by blast
  have "trace w' = trace w3"
    by (simp add: last set_dsp_def upd_obj_def)
  with t1 t2 t3 x1 have "trace w' = trace w @ (t1 @ ta) @
     Call l None (Some this) (args_or_empty args) (Some ((objs w this)\<lparr>dsp := None\<rparr>)) # (tb @ tc)"
    by simp
  then show ?thesis by blast
qed


lemma decorate_store:
  assumes "\<And>u. post (body u) (same_store u) (same_store u)"
  shows "post (decorate this hs body w) (same_store w) (same_store w)"
proof -
  let ?w1 = "set_dsp this (case hs of HookFunction f \<Rightarrow> Some f | Falsy \<Rightarrow> None
                | HookMapping m \<Rightarrow> Some (Decorated (dsp (objs w this)) m)) w"
  have s1: "same_store w ?w1" by (rule same_store_set_dsp)
  from assms [of ?w1] show ?thesis
    by (cases "body ?w1")
       (auto simp: decorate_def intro: same_store_trans [OF s1] same_store_trans same_store_set_dsp)
qed

lemma settled_body_store:
  "post (case pending (objs u r) of
           Val ps \<Rightarrow>
             (let ps' = splice1 ps (indexOf ps o1);
                  w1 = upd_obj r (\<lambda>x. x\<lparr>pending := (if length ps' = 0 then e else Val ps'),
                                          status := Some st, response := v\<rparr>) u
              in bind (dispatch n r h (Some [v]) None w1)
                   (\<lambda>_ w2. case f of None \<Rightarrow> Return () w2
                            | Some g \<Rightarrow> apply_cb (dispatch n) g None (Some r) [v] w2))
         | _ \<Rightarrow> Threw JTypeError u)
     (same_store u) (same_store u)"
proof (cases "pending (objs u r)")
  case (Val ps)
  define w1 where "w1 = upd_obj r (\<lambda>x. x\<lparr>pending :=
      (if length (splice1 ps (indexOf ps o1)) = 0 then e else Val (splice1 ps (indexOf ps o1))),
      status := Some st, response := v\<rparr>) u"
  have s1: "same_store u w1" unfolding w1_def by (rule same_store_upd_obj)
  have "post (bind (dispatch n r h (Some [v]) None w1)
                   (\<lambda>_ w2. case f of None \<Rightarrow> Return () w2
                            | Some g \<Rightarrow> apply_cb (dispatch n) g None (Some r) [v] w2))
          (same_store u) (same_store u)"
    by (rule post_mono [OF settled_hooks_frame])
       (blast intro: same_store_trans [OF s1] hooks_frame_store hooks_kept_frame)+
  then show ?thesis
    by (simp add: Val Let_def w1_def)
qed (simp_all add: same_store_refl)

lemma onResolved_store:
  "post (onResolved n c v w) (same_store w) (same_store w)"
  "on_return (onResolved n c v w) (\<lambda>x w'. x = Value (JObject (self c)))"
proof -
  have d: "post (decorate (self c) (captured_hooks c)
           (\<lambda>w. case pending (objs w (self c)) of
                   Val ps \<Rightarrow>
                     (let ps' = splice1 ps (indexOf ps (options c));
                          w1 = upd_obj (self c)
                                 (\<lambda>x. x\<lparr>pending := (if length ps' = 0 then Undefined else Val ps'),
                                         status := Some OK, response := v\<rparr>) w
                      in bind (dispatch n (self c) ''after-request'' (Some [v]) None w1)
                           (\<lambda>_ w2. case success c of
                                      None \<Rightarrow> Return () w2
                                    | Some f \<Rightarrow> apply_cb (dispatch n) f None (Some (self c)) [v] w2))
                 | _ \<Rightarrow> Threw JTypeError w) w) (same_store w) (same_store w)"
    (is "post ?d _ _")
    by (rule decorate_store) (rule settled_body_store)
  show "post (onResolved n c v w) (same_store w) (same_store w)"
    using d by (cases ?d) (simp_all add: onResolved_def same_store_set_status)
  show "on_return (onResolved n c v w) (\<lambda>x w'. x = Value (JObject (self c)))"
    by (cases ?d) (simp_all add: onResolved_def)
qed

lemma onRejected_store:
  assumes "\<not> canceled w (options c)"
  shows "post (onRejected n c v w)
           (same_store (snd (q_reject (JObject (self c)) w))) (same_store w)"
    and "on_return (onRejected n c v w) (\<lambda>x w'. x = Promise (fresh w))"
proof -
  have d: "post (decorate (self c) (captured_hooks c)
           (\<lambda>w. case pending (objs w (self c)) of
                   Val ps \<Rightarrow>
                     (let ps' = splice1 ps (indexOf ps (options c));
                          w1 = upd_obj (self c)
                                 (\<lambda>x. x\<lparr>pending := (if length ps' = 0 then Null else Val ps'),
                                         status := Some ERROR, response := v\<rparr>) w
                      in bind (dispatch n (self c) ''after-request-error'' (Some [v]) None w1)
                           (\<lambda>_ w2. case failure c of
                                      None \<Rightarrow> Return () w2
                                    | Some f \<Rightarrow> apply_cb (dispatch n) f None (Some (self c)) [v] w2))
                 | _ \<Rightarrow> Threw JTypeError w) w) (same_store w) (same_store w)"
    (is "post ?d _ _")
    by (rule decorate_store) (rule settled_body_store)
  show "post (onRejected n c v w)
           (same_store (snd (q_reject (JObject (self c)) w))) (same_store w)"
    using d assms
    by (cases ?d) (simp_all add: onRejected_def q_reject_def alloc_def same_store_def)
  show "on_return (onRejected n c v w) (\<lambda>x w'. x = Promise (fresh w))"
    using d assms
    by (cases ?d) (simp_all add: onRejected_def q_reject_def alloc_def same_store_def)
qed

lemma canceled_handlers:
  assumes "canceled w (options c)"
  shows "onResolved n c v w = Return (Value (JObject (self c))) (set_status (self c) CANCELED w)"
    and "onRejected n c v w = Return (Value (JObject (self c))) (set_status (self c) CANCELED w)"
    and "performRequest n c w =
           Return (fresh w) (snd (q_when (JObject (self c)) (set_status (self c) CANCELED w)))"
  using assms
  by (simp_all add: onResolved_def onRejected_def performRequest_def q_when_def alloc_def
        set_status_def upd_obj_def)

lemma performRequest_store:
  assumes "\<not> canceled w (options c)"
  shows "post (performRequest n c w)
           (same_store (snd (q_then (fresh w) (Some (OnResolved c)) (Some (OnRejected c))
                               (snd (http (options c) w)))))
           (same_store w)"
    and "on_return (performRequest n c w) (\<lambda>x w'. x = Suc (fresh w))"
proof -
  have d: "post (decorate (self c) (captured_hooks c)
           (\<lambda>w. dispatch n (self c) ''before-request'' (Some [JConfig (options c)]) None
                   (upd_obj (self c) (\<lambda>x. x\<lparr>response := JNull, error := JFalse\<rparr>) w)) w)
           (same_store w) (same_store w)"
    (is "post ?d _ _")
  proof (rule decorate_store)
    fix u
    let ?u1 = "upd_obj (self c) (\<lambda>x. x\<lparr>response := JNull, error := JFalse\<rparr>) u"
    have s1: "same_store u ?u1" by (rule same_store_upd_obj)
    show "post (dispatch n (self c) ''before-request'' (Some [JConfig (options c)]) None ?u1)
            (same_store u) (same_store u)"
      by (rule post_mono [OF dispatch_frame])
         (blast intro: same_store_trans [OF s1] hooks_frame_store hooks_kept_frame)+
  qed
  show "post (performRequest n c w)
           (same_store (snd (q_then (fresh w) (Some (OnResolved c)) (Some (OnRejected c))
                               (snd (http (options c) w)))))
           (same_store w)"
    using d assms
    by (cases ?d)
       (simp_all add: performRequest_def http_def q_then_def alloc_def subscribe_def
          same_store_def Let_def)
  show "on_return (performRequest n c w) (\<lambda>x w'. x = Suc (fresh w))"
    using d assms
    by (cases ?d)
       (simp_all add: performRequest_def http_def q_then_def alloc_def subscribe_def
          same_store_def Let_def)
qed


lemma onRejected_unfold:
  assumes "\<not> canceled w (options c)" and "pending (objs w (self c)) = Val ps"
  shows "onRejected n c r w =
    bind (and_then
            (bind (dispatch n (self c) ''after-request-error'' (Some [r]) None
                     (upd_obj (self c)
                        (\<lambda>x. x\<lparr>pending := (if length (splice1 ps (indexOf ps (options c))) = 0
                                            then Null else Val (splice1 ps (indexOf ps (options c)))),
                                status := Some ERROR, response := r\<rparr>)
                        (set_dsp (self c) (captured c) w)))
               (\<lambda>_ w2. case failure c of
                          None \<Rightarrow> Return () w2
                        | Some f \<Rightarrow> apply_cb (dispatch n) f None (Some (self c)) [r] w2))
            (set_dsp (self c) (dsp (objs w (self c)))))
      (\<lambda>_ w'. Return (Promise (fresh w')) (snd (q_reject (JObject (self c)) w')))"
  using assms
  by (simp add: onRejected_def decorate_captured set_dsp_def upd_obj_def Let_def q_reject_def
        alloc_def)

lemma onResolved_unfold:
  assumes "\<not> canceled w (options c)" and "pending (objs w (self c)) = Val ps"
  shows "onResolved n c r w =
    bind (and_then
            (bind (dispatch n (self c) ''after-request'' (Some [r]) None
                     (upd_obj (self c)
                        (\<lambda>x. x\<lparr>pending := (if length (splice1 ps (indexOf ps (options c))) = 0
                                            then Undefined
                                            else Val (splice1 ps (indexOf ps (options c)))),
                                status := Some OK, response := r\<rparr>)
                        (set_dsp (self c) (captured c) w)))
               (\<lambda>_ w2. case success c of
                          None \<Rightarrow> Return () w2
                        | Some f \<Rightarrow> apply_cb (dispatch n) f None (Some (self c)) [r] w2))
            (set_dsp (self c) (dsp (objs w (self c)))))
      (\<lambda>_ w'. Return (Value (JObject (self c))) w')"
  using assms
  by (simp add: onResolved_def decorate_captured set_dsp_def upd_obj_def Let_def)

text \<open>
  The hook dispatch of the three functions of an operation, as the visits of the
  specification for the object with the captured override as its override.
\<close>

lemma and_then_visits:
  "and_then (bind V (\<lambda>_ w'. Return () (set_dsp r x w'))) (set_dsp r y) =
   and_then (V :: unit result) (set_dsp r y)"
  by (cases V) (simp_all add: set_dsp_twice)

lemma hook_visits_fields:
  assumes "dsp y = dsp x" and "cb y = cb x" and "scope y = scope x" and "otype y = otype x"
  shows "hook_visits y h = hook_visits x h"
  using assms by (simp add: hook_visits_def cbs_def cong: option.case_cong parent.case_cong)

lemma captured_dispatch_visits:
  assumes ty: "scope x = Some (Dispatchable s) \<or> otype x \<noteq> Some Plain"
    and y: "dsp (objs w2 r) = d" "cb (objs w2 r) = cb x" "scope (objs w2 r) = scope x"
      "otype (objs w2 r) = otype x"
  shows "dispatch (Suc n) r h args None w2 =
     bind (visit_all (dispatch n) h args r (hook_visits (x\<lparr>dsp := d\<rparr>) h) (set_dsp r None w2))
       (\<lambda>_ w'. Return () (set_dsp r d w'))"
proof -
  have ty2: "scope (objs w2 r) = Some (Dispatchable s) \<or> otype (objs w2 r) \<noteq> Some Plain"
    using ty by (simp add: y)
  have hv: "hook_visits (objs w2 r) h = hook_visits (x\<lparr>dsp := d\<rparr>) h"
    by (rule hook_visits_fields) (simp_all add: y)
  show ?thesis
    by (simp only: dispatch_as_visits [OF ty2] hv y option.case)
qed

lemma performRequest_visits:
  assumes nc: "\<not> canceled w (options c)"
    and ty: "scope (objs w (self c)) = Some (Dispatchable s) \<or> otype (objs w (self c)) \<noteq> Some Plain"
  shows "performRequest (Suc n) c w =
     bind (and_then
             (visit_all (dispatch n) ''before-request'' (Some [JConfig (options c)]) (self c)
                (hook_visits ((objs w (self c))\<lparr>dsp := captured c\<rparr>) ''before-request'')
                (upd_obj (self c) (\<lambda>x. x\<lparr>dsp := None, response := JNull, error := JFalse\<rparr>) w))
             (set_dsp (self c) (dsp (objs w (self c)))))
       (\<lambda>_ w1. let (h, w2) = http (options c) w1;
                    (p, w3) = q_then h (Some (OnResolved c)) (Some (OnRejected c)) w2
                in Return p w3)"
proof -
  let ?w2 = "upd_obj (self c) (\<lambda>x. x\<lparr>response := JNull, error := JFalse\<rparr>)
               (set_dsp (self c) (captured c) w)"
  have w0: "set_dsp (self c) None ?w2 =
            upd_obj (self c) (\<lambda>x. x\<lparr>dsp := None, response := JNull, error := JFalse\<rparr>) w"
    by (cases "objs w (self c)") (simp add: set_dsp_def upd_obj_def)
  have "dispatch (Suc n) (self c) ''before-request'' (Some [JConfig (options c)]) None ?w2 =
     bind (visit_all (dispatch n) ''before-request'' (Some [JConfig (options c)]) (self c)
             (hook_visits ((objs w (self c))\<lparr>dsp := captured c\<rparr>) ''before-request'')
             (set_dsp (self c) None ?w2))
       (\<lambda>_ w'. Return () (set_dsp (self c) (captured c) w'))"
    by (rule captured_dispatch_visits [OF ty]) (simp_all add: upd_obj_def set_dsp_def)
  then show ?thesis
    using nc
    by (simp only: performRequest_def decorate_captured if_False and_then_visits w0)
qed

lemma settled_visits:
  assumes ty: "scope (objs w (self c)) = Some (Dispatchable s) \<or> otype (objs w (self c)) \<noteq> Some Plain"
  shows "and_then
           (bind (dispatch (Suc n) (self c) h (Some [r]) None
                    (upd_obj (self c) (\<lambda>x. x\<lparr>pending := p, status := Some st, response := r\<rparr>)
                       (set_dsp (self c) (captured c) w)))
              (\<lambda>_ w2. case k of
                         None \<Rightarrow> Return () w2
                       | Some f \<Rightarrow> apply_cb (dispatch (Suc n)) f None (Some (self c)) [r] w2))
           (set_dsp (self c) old) =
         and_then
           (bind (visit_all (dispatch n) h (Some [r]) (self c)
                    (hook_visits ((objs w (self c))\<lparr>dsp := captured c\<rparr>) h)
                    (upd_obj (self c)
                       (\<lambda>x. x\<lparr>dsp := None, pending := p, status := Some st, response := r\<rparr>) w))
              (\<lambda>_ w2. case k of
                         None \<Rightarrow> Return () w2
                       | Some f \<Rightarrow> apply_cb (dispatch (Suc n)) f None (Some (self c)) [r]
                                    (set_dsp (self c) (captured c) w2)))
           (set_dsp (self c) old)"
proof -
  let ?w2 = "upd_obj (self c) (\<lambda>x. x\<lparr>pending := p, status := Some st, response := r\<rparr>)
               (set_dsp (self c) (captured c) w)"
  let ?V = "visit_all (dispatch n) h (Some [r]) (self c)
              (hook_visits ((objs w (self c))\<lparr>dsp := captured c\<rparr>) h)
              (upd_obj (self c)
                 (\<lambda>x. x\<lparr>dsp := None, pending := p, status := Some st, response := r\<rparr>) w)"
  have w0: "set_dsp (self c) None ?w2 =
            upd_obj (self c) (\<lambda>x. x\<lparr>dsp := None, pending := p, status := Some st, response := r\<rparr>) w"
    by (cases "objs w (self c)") (simp add: set_dsp_def upd_obj_def)
  have d: "dispatch (Suc n) (self c) h (Some [r]) None ?w2 =
     bind ?V (\<lambda>_ w'. Return () (set_dsp (self c) (captured c) w'))"
    unfolding w0 [symmetric]
    by (rule captured_dispatch_visits [OF ty]) (simp_all add: upd_obj_def set_dsp_def)
  show ?thesis
    unfolding d
    by (cases ?V; cases k) (simp_all add: set_dsp_twice)
qed

lemma onRejected_visits:
  assumes nc: "\<not> canceled w (options c)" and pend: "pending (objs w (self c)) = Val ps"
    and ty: "scope (objs w (self c)) = Some (Dispatchable s) \<or> otype (objs w (self c)) \<noteq> Some Plain"
  shows "onRejected (Suc n) c r w =
     bind (and_then
             (bind (visit_all (dispatch n) ''after-request-error'' (Some [r]) (self c)
                      (hook_visits ((objs w (self c))\<lparr>dsp := captured c\<rparr>) ''after-request-error'')
                      (upd_obj (self c)
                         (\<lambda>x. x\<lparr>dsp := None,
                                 pending := (if length (splice1 ps (indexOf ps (options c))) = 0
                                             then Null else Val (splice1 ps (indexOf ps (options c)))),
                                 status := Some ERROR, response := r\<rparr>) w))
                (\<lambda>_ w2. case failure c of
                           None \<Rightarrow> Return () w2
                         | Some f \<Rightarrow> apply_cb (dispatch (Suc n)) f None (Some (self c)) [r]
                                      (set_dsp (self c) (captured c) w2)))
             (set_dsp (self c) (dsp (objs w (self c)))))
       (\<lambda>_ w'. Return (Promise (fresh w')) (snd (q_reject (JObject (self c)) w')))"
  unfolding onRejected_unfold [OF nc pend] settled_visits [OF ty] ..

lemma onResolved_visits:
  assumes nc: "\<not> canceled w (options c)" and pend: "pending (objs w (self c)) = Val ps"
    and ty: "scope (objs w (self c)) = Some (Dispatchable s) \<or> otype (objs w (self c)) \<noteq> Some Plain"
  shows "onResolved (Suc n) c r w =
     bind (and_then
             (bind (visit_all (dispatch n) ''after-request'' (Some [r]) (self c)
                      (hook_visits ((objs w (self c))\<lparr>dsp := captured c\<rparr>) ''after-request'')
                      (upd_obj (self c)
                         (\<lambda>x. x\<lparr>dsp := None,
                                 pending := (if length (splice1 ps (indexOf ps (options c))) = 0
                                             then Undefined
                                             else Val (splice1 ps (indexOf ps (options c)))),
                                 status := Some OK, response := r\<rparr>) w))
                (\<lambda>_ w2. case success c of
                           None \<Rightarrow> Return () w2
                         | Some f \<Rightarrow> apply_cb (dispatch (Suc n)) f None (Some (self c)) [r]
                                      (set_dsp (self c) (captured c) w2)))
             (set_dsp (self c) (dsp (objs w (self c)))))
       (\<lambda>_ w'. Return (Value (JObject (self c))) w')"
  unfolding onResolved_unfold [OF nc pend] settled_visits [OF ty] ..

lemma onRejected_effect:
  assumes nc: "\<not> canceled w (options c)" and pend: "pending (objs w (self c)) = Val ps"
  shows "after (onRejected n c r w)
           (\<lambda>w'. status (objs w' (self c)) = Some ERROR \<and> response (objs w' (self c)) = r)"
    and "on_return (onRejected n c r w)
           (\<lambda>x w'. x = Promise (fresh w) \<and>
              promises w' (fresh w) = Some (Reject (JObject (self c))) \<and>
              (\<exists>t. trace w' = trace w @ t \<and>
                 (\<forall>l b. Callback l b \<in> set (cbs (objs w (self c)) ''after-request-error'') \<longrightarrow>
                    (\<exists>y. Call l None (Some (self c)) [r] (Some y) \<in> set t \<and>
                         status y = Some ERROR \<and> response y = r)) \<and>
                 (\<forall>l b. failure c = Some (Callback l b) \<longrightarrow>
                    (\<exists>y. Call l None (Some (self c)) [r] (Some y) \<in> set t \<and>
                         status y = Some ERROR \<and> response y = r))))"
proof -
  define w1 where "w1 = upd_obj (self c)
      (\<lambda>x. x\<lparr>pending := (if length (splice1 ps (indexOf ps (options c))) = 0
                          then Null else Val (splice1 ps (indexOf ps (options c)))),
              status := Some ERROR, response := r\<rparr>)
      (set_dsp (self c) (captured c) w)"
  define body where "body =
    bind (dispatch n (self c) ''after-request-error'' (Some [r]) None w1)
      (\<lambda>_ w2. case failure c of
                 None \<Rightarrow> Return () w2
               | Some f \<Rightarrow> apply_cb (dispatch n) f None (Some (self c)) [r] w2)"
  have unfold: "onRejected n c r w =
    bind (and_then body (set_dsp (self c) (dsp (objs w (self c)))))
      (\<lambda>_ w'. Return (Promise (fresh w')) (snd (q_reject (JObject (self c)) w')))"
    unfolding body_def w1_def by (rule onRejected_unfold [OF nc pend])
  have x1: "status (objs w1 (self c)) = Some ERROR" "response (objs w1 (self c)) = r"
    and t1: "trace w1 = trace w" and f1: "fresh w1 = fresh w"
    and c1: "cbs (objs w1 (self c)) h = cbs (objs w (self c)) h" for h
    by (simp_all add: w1_def upd_obj_def set_dsp_def cbs_def)
  have fr: "post body (hooks_kept w1) (hooks_frame w1)"
    unfolding body_def by (rule settled_hooks_frame)
  have keep: "status (objs u (self c)) = Some ERROR \<and> response (objs u (self c)) = r"
    if "hooks_frame w1 u" for u
  proof -
    from that have "objs u (self c) = objs w1 (self c)
        \<or> objs u (self c) = (objs w1 (self c))\<lparr>dsp := None\<rparr>"
      unfolding hooks_frame_def by blast
    with x1 show ?thesis by auto
  qed
  have fin: "status (objs (snd (q_reject v (set_dsp (self c) d u))) (self c)) = status (objs u (self c))
      \<and> response (objs (snd (q_reject v (set_dsp (self c) d u))) (self c)) = response (objs u (self c))
      \<and> status (objs (set_dsp (self c) d u) (self c)) = status (objs u (self c))
      \<and> response (objs (set_dsp (self c) d u) (self c)) = response (objs u (self c))" for v d u
    by (simp add: q_reject_def alloc_def set_dsp_def upd_obj_def)
  show "after (onRejected n c r w)
           (\<lambda>w'. status (objs w' (self c)) = Some ERROR \<and> response (objs w' (self c)) = r)"
    using fr keep by (cases body) (simp_all add: unfold fin hooks_kept_frame)
  show "on_return (onRejected n c r w)
           (\<lambda>x w'. x = Promise (fresh w) \<and>
              promises w' (fresh w) = Some (Reject (JObject (self c))) \<and>
              (\<exists>t. trace w' = trace w @ t \<and>
                 (\<forall>l b. Callback l b \<in> set (cbs (objs w (self c)) ''after-request-error'') \<longrightarrow>
                    (\<exists>y. Call l None (Some (self c)) [r] (Some y) \<in> set t \<and>
                         status y = Some ERROR \<and> response y = r)) \<and>
                 (\<forall>l b. failure c = Some (Callback l b) \<longrightarrow>
                    (\<exists>y. Call l None (Some (self c)) [r] (Some y) \<in> set t \<and>
                         status y = Some ERROR \<and> response y = r))))"
  proof (cases body)
    case (Return u w3)
    from Return obtain w2 where
      disp: "dispatch n (self c) ''after-request-error'' (Some [r]) None w1 = Return () w2"
      and cb: "(case failure c of None \<Rightarrow> Return () w2
                | Some f \<Rightarrow> apply_cb (dispatch n) f None (Some (self c)) [r] w2) = Return () w3"
      unfolding body_def bind_unit_eq_Return by auto
    from dispatch_frame [of n "self c" "''after-request-error''" "Some [r]" None w1] disp
    have k2: "hooks_kept w1 w2" by simp
    then obtain ta where ta: "trace w2 = trace w1 @ ta" and o2: "objs w2 = objs w1"
      unfolding hooks_kept_def hooks_frame_def by blast
    have "post (case failure c of None \<Rightarrow> Return () w2
                | Some f \<Rightarrow> apply_cb (dispatch n) f None (Some (self c)) [r] w2)
            (hooks_kept w2) (hooks_frame w2)"
      by (simp add: hooks_kept_refl apply_cb_frame [OF dispatch_frame] split: option.split)
    with cb have k3: "hooks_kept w2 w3" by simp
    then obtain tb where tb: "trace w3 = trace w2 @ tb"
      unfolding hooks_kept_def hooks_frame_def by blast
    have inst: "\<exists>y. Call l None (Some (self c)) [r] (Some y) \<in> set (ta @ tb) \<and>
                         status y = Some ERROR \<and> response y = r"
      if "Callback l b \<in> set (cbs (objs w (self c)) ''after-request-error'')" for l b
    proof -
      from that c1 have "Callback l b \<in> set (cbs (objs w1 (self c)) ''after-request-error'')"
        by simp
      from dispatch_records [OF disp this] ta obtain t1 t2 where
        "ta = t1 @ Call l None (Some (self c)) (args_or_empty (Some [r]))
                     (Some ((objs w1 (self c))\<lparr>dsp := None\<rparr>)) # t2"
        by auto
      then have "Call l None (Some (self c)) [r] (Some ((objs w1 (self c))\<lparr>dsp := None\<rparr>))
                   \<in> set (ta @ tb)"
        by (simp add: args_or_empty_def)
      with x1 show ?thesis by force
    qed
    have errcb: "\<exists>y. Call l None (Some (self c)) [r] (Some y) \<in> set (ta @ tb) \<and>
                         status y = Some ERROR \<and> response y = r"
      if "failure c = Some (Callback l b)" for l b
    proof -
      from cb that have "apply_cb (dispatch n) (Callback l b) None (Some (self c)) [r] w2
                         = Return () w3" by simp
      from apply_cb_records [where D = "dispatch n", OF dispatch_frame this] tb
      have "Call l None (Some (self c)) [r] (Some (objs w2 (self c))) \<in> set (ta @ tb)"
        by auto
      with x1 o2 show ?thesis by force
    qed
    have "trace (snd (q_reject (JObject (self c)) (set_dsp (self c) (dsp (objs w (self c))) w3)))
          = trace w @ (ta @ tb)"
      by (simp add: q_reject_def alloc_def set_dsp_def upd_obj_def ta tb t1)
    moreover from k2 k3 have "fresh w3 = fresh w"
      unfolding hooks_kept_def hooks_frame_def by (simp add: f1)
    ultimately show ?thesis
      using inst errcb
      by (simp add: unfold Return q_reject_def alloc_def set_dsp_def upd_obj_def) blast
  qed (simp_all add: unfold)
qed

lemma tick_rejection_passes_on:
  assumes q: "queue u = [(Some (OnRejected c), Reject r, d)]"
    and d: "promises u d = None" "d < fresh u"
    and nc: "\<not> canceled u (options c)"
    and ret: "onRejected n c r (u\<lparr>queue := []\<rparr>) = Return x u'"
  shows "\<exists>u1 u2. tick n u = Return () u1 \<and>
           queue u1 = [(None, Reject (JObject (self c)), d)] \<and>
           tick n u1 = Return () u2 \<and>
           promises u2 d = Some (Reject (JObject (self c))) \<and>
           queue u2 = map (job_of (Reject (JObject (self c)))) (reactions u d)"
proof -
  let ?u0 = "u\<lparr>queue := []\<rparr>"
  have nc0: "\<not> canceled ?u0 (options c)" using nc by simp
  from onRejected_store [OF nc0, of n r] ret
  have x: "x = Promise (fresh u)"
    and st: "same_store (snd (q_reject (JObject (self c)) ?u0)) u'"
    by simp_all
  from st have f: "promises u' = (promises u)(fresh u := Some (Reject (JObject (self c))))"
      "reactions u' = (reactions u)(fresh u := [])" "queue u' = []" "fresh u' = Suc (fresh u)"
    by (simp_all add: same_store_def q_reject_def alloc_def)
  define u1 where "u1 = subscribe (fresh u) (None, None, d) u'"
  have t1: "tick n u = Return () u1"
    by (simp add: tick_def q ret x u1_def)
  have q1: "queue u1 = [(None, Reject (JObject (self c)), d)]"
    by (simp add: u1_def subscribe_def f)
  have p1: "promises u1 d = None" "reactions u1 d = reactions u d"
    using d by (simp_all add: u1_def subscribe_def f)
  define u2 where "u2 = settle d (Reject (JObject (self c))) (u1\<lparr>queue := []\<rparr>)"
  have t2: "tick n u1 = Return () u2"
    by (simp add: tick_def q1 u2_def)
  have "promises u2 d = Some (Reject (JObject (self c)))"
    "queue u2 = map (job_of (Reject (JObject (self c)))) (reactions u d)"
    by (simp_all add: u2_def settle_def p1)
  with t1 q1 t2 show ?thesis by blast
qed


lemma tick_rejection_throws:
  assumes q: "queue u = [(Some (OnRejected c), Reject r, d)]"
    and d: "promises u d = None"
    and nc: "\<not> canceled u (options c)"
    and thr: "onRejected n c r (u\<lparr>queue := []\<rparr>) = Threw e u'"
  shows "\<exists>u1. tick n u = Return () u1 \<and> promises u1 d = Some (Reject e) \<and>
           queue u1 = map (job_of (Reject e)) (reactions u d)"
proof -
  let ?u0 = "u\<lparr>queue := []\<rparr>"
  have nc0: "\<not> canceled ?u0 (options c)" using nc by simp
  from onRejected_store(1) [OF nc0, of n r] thr have st: "same_store ?u0 u'"
    by simp
  then have f: "promises u' = promises u" "reactions u' = reactions u" "queue u' = []"
    by (simp_all add: same_store_def)
  have "tick n u = Return () (settle d (Reject e) u')"
    by (simp add: tick_def q thr)
  moreover have "promises (settle d (Reject e) u') d = Some (Reject e)"
    "queue (settle d (Reject e) u') = map (job_of (Reject e)) (reactions u d)"
    using d by (simp_all add: settle_def f)
  ultimately show ?thesis by blast
qed


section \<open>A rejection by the transport\<close>

text \<open>
  C7. For an operation that is not canceled (and whose object has its \<^verbatim>\<open>$pending\<close>
  list), the function given to \<^verbatim>\<open>then\<close> for a rejection sets \<^verbatim>\<open>$status\<close> to
  \<^verbatim>\<open>'error'\<close> and \<^verbatim>\<open>$response\<close> to the rejection value, and both stay so whether it
  returns or throws. In that state it dispatches \<^verbatim>\<open>after-request-error\<close> with the
  rejection value: it makes the visits the specification lists for the hook on the
  object under the captured override (that override, the instance callbacks, the scope
  or else the type), then calls the error callback of the operation, if given, sets
  the override of the object back and returns a new promise rejected with the object
  itself. When it returns, every instance callback of the hook and the error callback
  have been invoked with the rejection value as argument and the object as receiver.
  In the queue: when that function is the job of the chain promise \<open>d\<close> on which the
  next operation waits, two turns of the queue reject \<open>d\<close> with the object and make
  \<^verbatim>\<open>performRequest\<close> of the next operation the next job, through the failure branch;
  when a hook or the callback throws, one turn rejects \<open>d\<close> with what was thrown and
  \<^verbatim>\<open>performRequest\<close> of the next operation is the next job all the same.
\<close>

theorem transport_rejection:
  "\<not> canceled w (options c) \<and> pending (objs w (self c)) = Val ps \<longrightarrow>
     after (onRejected n c r w)
       (\<lambda>w'. status (objs w' (self c)) = Some ERROR \<and> response (objs w' (self c)) = r) \<and>
     on_return (onRejected n c r w)
       (\<lambda>x w'. x = Promise (fresh w) \<and>
          promises w' (fresh w) = Some (Reject (JObject (self c))) \<and>
          (\<exists>t. trace w' = trace w @ t \<and>
             (\<forall>l b. Callback l b \<in> set (cbs (objs w (self c)) ''after-request-error'') \<longrightarrow>
                (\<exists>y. Call l None (Some (self c)) [r] (Some y) \<in> set t \<and>
                     status y = Some ERROR \<and> response y = r)) \<and>
             (\<forall>l b. failure c = Some (Callback l b) \<longrightarrow>
                (\<exists>y. Call l None (Some (self c)) [r] (Some y) \<in> set t \<and>
                     status y = Some ERROR \<and> response y = r)))) \<and>
     (scope (objs w (self c)) = Some (Dispatchable s) \<or> otype (objs w (self c)) \<noteq> Some Plain \<longrightarrow>
        onRejected (Suc n) c r w =
          bind (and_then
                  (bind (visit_all (dispatch n) ''after-request-error'' (Some [r]) (self c)
                           (hook_visits ((objs w (self c))\<lparr>dsp := captured c\<rparr>)
                              ''after-request-error'')
                           (upd_obj (self c)
                              (\<lambda>x. x\<lparr>dsp := None,
                                      pending :=
                                        (if length (splice1 ps (indexOf ps (options c))) = 0
                                         then Null
                                         else Val (splice1 ps (indexOf ps (options c)))),
                                      status := Some ERROR, response := r\<rparr>) w))
                     (\<lambda>_ w2. case failure c of
                                None \<Rightarrow> Return () w2
                              | Some f \<Rightarrow> apply_cb (dispatch (Suc n)) f None (Some (self c)) [r]
                                           (set_dsp (self c) (captured c) w2)))
                  (set_dsp (self c) (dsp (objs w (self c)))))
            (\<lambda>_ w'. Return (Promise (fresh w')) (snd (q_reject (JObject (self c)) w')))) \<and>
     (queue w = [(Some (OnRejected c), Reject r, d)] \<and> promises w d = None \<and> d < fresh w \<and>
      reactions w d = [(Some (PerformRequest c'), Some (PerformRequest c'), d')] \<longrightarrow>
        (\<forall>x u'. onRejected n c r (w\<lparr>queue := []\<rparr>) = Return x u' \<longrightarrow>
           (\<exists>u1 u2. tick n w = Return () u1 \<and> tick n u1 = Return () u2 \<and>
              promises u2 d = Some (Reject (JObject (self c))) \<and>
              queue u2 = [(Some (PerformRequest c'), Reject (JObject (self c)), d')])) \<and>
        (\<forall>e u'. onRejected n c r (w\<lparr>queue := []\<rparr>) = Threw e u' \<longrightarrow>
           (\<exists>u1. tick n w = Return () u1 \<and> promises u1 d = Some (Reject e) \<and>
              queue u1 = [(Some (PerformRequest c'), Reject e, d')])))"
proof (intro impI conjI allI; (elim conjE)?)
  assume nc: "\<not> canceled w (options c)" and pend: "pending (objs w (self c)) = Val ps"
  show "after (onRejected n c r w)
       (\<lambda>w'. status (objs w' (self c)) = Some ERROR \<and> response (objs w' (self c)) = r)"
    by (rule onRejected_effect(1) [OF nc pend])
  show "on_return (onRejected n c r w)
       (\<lambda>x w'. x = Promise (fresh w) \<and>
          promises w' (fresh w) = Some (Reject (JObject (self c))) \<and>
          (\<exists>t. trace w' = trace w @ t \<and>
             (\<forall>l b. Callback l b \<in> set (cbs (objs w (self c)) ''after-request-error'') \<longrightarrow>
                (\<exists>y. Call l None (Some (self c)) [r] (Some y) \<in> set t \<and>
                     status y = Some ERROR \<and> response y = r)) \<and>
             (\<forall>l b. failure c = Some (Callback l b) \<longrightarrow>
                (\<exists>y. Call l None (Some (self c)) [r] (Some y) \<in> set t \<and>
                     status y = Some ERROR \<and> response y = r))))"
    by (rule onRejected_effect(2) [OF nc pend])
  {
    assume ty: "scope (objs w (self c)) = Some (Dispatchable s) \<or>
                otype (objs w (self c)) \<noteq> Some Plain"
    show "onRejected (Suc n) c r w =
          bind (and_then
                  (bind (visit_all (dispatch n) ''after-request-error'' (Some [r]) (self c)
                           (hook_visits ((objs w (self c))\<lparr>dsp := captured c\<rparr>)
                              ''after-request-error'')
                           (upd_obj (self c)
                              (\<lambda>x. x\<lparr>dsp := None,
                                      pending :=
                                        (if length (splice1 ps (indexOf ps (options c))) = 0
                                         then Null
                                         else Val (splice1 ps (indexOf ps (options c)))),
                                      status := Some ERROR, response := r\<rparr>) w))
                     (\<lambda>_ w2. case failure c of
                                None \<Rightarrow> Return () w2
                              | Some f \<Rightarrow> apply_cb (dispatch (Suc n)) f None (Some (self c)) [r]
                                           (set_dsp (self c) (captured c) w2)))
                  (set_dsp (self c) (dsp (objs w (self c)))))
            (\<lambda>_ w'. Return (Promise (fresh w')) (snd (q_reject (JObject (self c)) w')))"
      by (rule onRejected_visits [OF nc pend ty])
  }
  assume q: "queue w = [(Some (OnRejected c), Reject r, d)]" and d: "promises w d = None" "d < fresh w"
    and rs: "reactions w d = [(Some (PerformRequest c'), Some (PerformRequest c'), d')]"
  {
    fix x u'
    assume ret: "onRejected n c r (w\<lparr>queue := []\<rparr>) = Return x u'"
    from tick_rejection_passes_on [OF q d nc ret] rs
    show "\<exists>u1 u2. tick n w = Return () u1 \<and> tick n u1 = Return () u2 \<and>
             promises u2 d = Some (Reject (JObject (self c))) \<and>
             queue u2 = [(Some (PerformRequest c'), Reject (JObject (self c)), d')]"
      by auto
  }
  {
    fix e u'
    assume thr: "onRejected n c r (w\<lparr>queue := []\<rparr>) = Threw e u'"
    from tick_rejection_throws [OF q d(1) nc thr] rs
    show "\<exists>u1. tick n w = Return () u1 \<and> promises u1 d = Some (Reject e) \<and>
             queue u1 = [(Some (PerformRequest c'), Reject e, d')]"
      by auto
  }
qed

theorem transport_rejection_witness:
  "queue (the (run 1 [On 0 ''after-request-error'' (Callback 3 []),
                     Send 0 1 None (Some (Callback 4 [])), Send 0 2 None None,
                     TransportSettles 0 (Reject (JData 7))] init)) =
     [(Some (OnRejected \<lparr>self = 0, captured = None, options = 1, success = None,
                         failure = Some (Callback 4 [])\<rparr>), Reject (JData 7), 1)] \<and>
   (\<exists>u1 u2.
      tick 1 (the (run 1 [On 0 ''after-request-error'' (Callback 3 []),
                          Send 0 1 None (Some (Callback 4 [])), Send 0 2 None None,
                          TransportSettles 0 (Reject (JData 7))] init)) = Return () u1 \<and>
      tick 1 u1 = Return () u2 \<and>
      promises u2 1 = Some (Reject (JObject 0)) \<and>
      queue u2 = [(Some (PerformRequest \<lparr>self = 0, captured = None, options = 2,
                                         success = None, failure = None\<rparr>),
                   Reject (JObject 0), 2)]) \<and>
   labels (onRejected 1
     \<lparr>self = 0, captured = Some (Function (Callback 5 [])), options = 1, success = None,
      failure = Some (Callback 4 [])\<rparr> (JData 7)
     (the (run 1 [On 0 ''after-request-error'' (Callback 3 []),
                  Send 0 1 None (Some (Callback 4 [])), Send 0 2 None None,
                  TransportSettles 0 (Reject (JData 7))] init))) = Some [5, 3, 4]"
proof -
  define cA where "cA = \<lparr>self = 0, captured = None, options = 1, success = None,
                         failure = Some (Callback 4 [])\<rparr>"
  define cB where "cB = \<lparr>self = 0, captured = None, options = 2, success = None,
                         failure = None\<rparr>"
  define cC where "cC = \<lparr>self = 0, captured = Some (Function (Callback 5 [])), options = 1,
                         success = None, failure = Some (Callback 4 [])\<rparr>"
  define W where "W = the (run 1 [On 0 ''after-request-error'' (Callback 3 []),
                     Send 0 1 None (Some (Callback 4 [])), Send 0 2 None None,
                     TransportSettles 0 (Reject (JData 7))] init)"
  have W: "queue W = [(Some (OnRejected cA), Reject (JData 7), 1)]"
    "pending (objs W (self cA)) = Val [1, 2]" "\<not> canceled W (options cA)"
    "promises W 1 = None" "1 < fresh W"
    "reactions W 1 = [(Some (PerformRequest cB), Some (PerformRequest cB), 2)]"
    by (simp_all add: W_def world_defs request_defs cA_def cB_def)
  have "\<exists>x u'. onRejected 1 cA (JData 7) (W\<lparr>queue := []\<rparr>) = Return x u'"
    by (simp add: W_def world_defs request_defs cA_def)
  then obtain x u' where ret: "onRejected 1 cA (JData 7) (W\<lparr>queue := []\<rparr>) = Return x u'"
    by blast
  from transport_rejection [where w = W and c = cA and ps = "[1, 2]" and n = 1 and r = "JData 7"
         and s = 0 and d = 1 and c' = cB and d' = 2] W ret
  have ticks: "\<exists>u1 u2. tick 1 W = Return () u1 \<and> tick 1 u1 = Return () u2 \<and>
           promises u2 1 = Some (Reject (JObject (self cA))) \<and>
           queue u2 = [(Some (PerformRequest cB), Reject (JObject (self cA)), 2)]"
    by blast
  have C: "pending (objs W (self cC)) = Val [1, 2]" "\<not> canceled W (options cC)"
    "otype (objs W (self cC)) \<noteq> Some Plain"
    "hook_visits ((objs W (self cC))\<lparr>dsp := captured cC\<rparr>) ''after-request-error'' =
       [Override (Function (Callback 5 [])), Instance (Callback 3 [])]"
    by (simp_all add: W_def world_defs request_defs cC_def hook_visits_def)
  with transport_rejection [where w = W and c = cC and ps = "[1, 2]" and n = 0 and r = "JData 7"
         and s = 0 and d = 1 and c' = cB and d' = 2]
  have "onRejected (Suc 0) cC (JData 7) W =
          bind (and_then
                  (bind (visit_all (dispatch 0) ''after-request-error'' (Some [JData 7]) (self cC)
                           [Override (Function (Callback 5 [])), Instance (Callback 3 [])]
                           (upd_obj (self cC)
                              (\<lambda>x. x\<lparr>dsp := None,
                                      pending :=
                                        (if length (splice1 [1, 2] (indexOf [1, 2] (options cC))) = 0
                                         then Null
                                         else Val (splice1 [1, 2] (indexOf [1, 2] (options cC)))),
                                      status := Some ERROR, response := JData 7\<rparr>) W))
                     (\<lambda>_ w2. case failure cC of
                                None \<Rightarrow> Return () w2
                              | Some f \<Rightarrow> apply_cb (dispatch (Suc 0)) f None (Some (self cC)) [JData 7]
                                           (set_dsp (self cC) (captured cC) w2)))
                  (set_dsp (self cC) (dsp (objs W (self cC)))))
            (\<lambda>_ w'. Return (Promise (fresh w')) (snd (q_reject (JObject (self cC)) w')))"
    by simp
  then have "labels (onRejected 1 cC (JData 7) W) = Some [5, 3, 4]"
    by (simp add: cC_def W_def world_defs request_defs)
  with W(1) ticks show ?thesis
    unfolding W_def cA_def cB_def cC_def by simp
qed
section \<open>The override of a deferred operation\<close>

text \<open>
  C8. \<^verbatim>\<open>$send\<close> reads \<^verbatim>\<open>$dispatcher()\<close> when it is called and keeps the value in the
  closure of \<^verbatim>\<open>performRequest\<close>. When the object has a chain whose tail is pending, the
  call runs no hook and issues no transport call: it registers the closure, with the
  override of that moment, on the tail. Whenever the three functions of the operation
  run later, each re-applies the captured override with \<^verbatim>\<open>$decorate\<close>: their effect in
  a world where the object has any override \<open>x\<close> is their effect in the world where it
  has the captured one, with \<open>x\<close> set again at the end. And each dispatches its hook,
  \<^verbatim>\<open>before-request\<close>, \<^verbatim>\<open>after-request\<close> or \<^verbatim>\<open>after-request-error\<close>, under the captured
  override: the visits it makes are those the specification lists for the hook on the
  object with the captured override in the place of the one the object has when the
  function runs (the captured override first, if there is one, then the instance
  callbacks, then the scope or else the type), and the override the object had is set
  again afterwards.
\<close>

theorem send_captures_override:
  "(promise (objs w this) = Val p \<and> p < fresh w \<and> promises w p = None \<longrightarrow>
      (\<exists>w'. send n this opts s e w = Return () w' \<and> trace w' = trace w \<and>
            requests w' = requests w \<and>
            reactions w' p = reactions w p @
              [(Some (PerformRequest \<lparr>self = this, captured = dsp (objs w this), options = opts,
                                      success = s, failure = e\<rparr>),
                Some (PerformRequest \<lparr>self = this, captured = dsp (objs w this), options = opts,
                                      success = s, failure = e\<rparr>), fresh w)])) \<and>
   performRequest m c (set_dsp (self c) x u) =
     and_then (performRequest m c (set_dsp (self c) (captured c) u)) (set_dsp (self c) x) \<and>
   onResolved m c v (set_dsp (self c) x u) =
     and_then (onResolved m c v (set_dsp (self c) (captured c) u)) (set_dsp (self c) x) \<and>
   onRejected m c v (set_dsp (self c) x u) =
     and_then (onRejected m c v (set_dsp (self c) (captured c) u)) (set_dsp (self c) x) \<and>
   (\<not> canceled u (options c) \<and>
    (scope (objs u (self c)) = Some (Dispatchable t) \<or> otype (objs u (self c)) \<noteq> Some Plain) \<longrightarrow>
      performRequest (Suc m) c u =
        bind (and_then
                (visit_all (dispatch m) ''before-request'' (Some [JConfig (options c)]) (self c)
                   (hook_visits ((objs u (self c))\<lparr>dsp := captured c\<rparr>) ''before-request'')
                   (upd_obj (self c)
                      (\<lambda>x. x\<lparr>dsp := None, response := JNull, error := JFalse\<rparr>) u))
                (set_dsp (self c) (dsp (objs u (self c)))))
          (\<lambda>_ w1. let (h, w2) = http (options c) w1;
                       (p, w3) = q_then h (Some (OnResolved c)) (Some (OnRejected c)) w2
                   in Return p w3) \<and>
      (\<forall>ps. pending (objs u (self c)) = Val ps \<longrightarrow>
         onResolved (Suc m) c v u =
           bind (and_then
                   (bind (visit_all (dispatch m) ''after-request'' (Some [v]) (self c)
                            (hook_visits ((objs u (self c))\<lparr>dsp := captured c\<rparr>) ''after-request'')
                            (upd_obj (self c)
                               (\<lambda>x. x\<lparr>dsp := None,
                                       pending :=
                                         (if length (splice1 ps (indexOf ps (options c))) = 0
                                          then Undefined
                                          else Val (splice1 ps (indexOf ps (options c)))),
                                       status := Some OK, response := v\<rparr>) u))
                      (\<lambda>_ w2. case success c of
                                 None \<Rightarrow> Return () w2
                               | Some f \<Rightarrow> apply_cb (dispatch (Suc m)) f None (Some (self c)) [v]
                                            (set_dsp (self c) (captured c) w2)))
                   (set_dsp (self c) (dsp (objs u (self c)))))
             (\<lambda>_ w'. Return (Value (JObject (self c))) w') \<and>
         onRejected (Suc m) c v u =
           bind (and_then
                   (bind (visit_all (dispatch m) ''after-request-error'' (Some [v]) (self c)
                            (hook_visits ((objs u (self c))\<lparr>dsp := captured c\<rparr>)
                               ''after-request-error'')
                            (upd_obj (self c)
                               (\<lambda>x. x\<lparr>dsp := None,
                                       pending :=
                                         (if length (splice1 ps (indexOf ps (options c))) = 0
                                          then Null
                                          else Val (splice1 ps (indexOf ps (options c)))),
                                       status := Some ERROR, response := v\<rparr>) u))
                      (\<lambda>_ w2. case failure c of
                                 None \<Rightarrow> Return () w2
                               | Some f \<Rightarrow> apply_cb (dispatch (Suc m)) f None (Some (self c)) [v]
                                            (set_dsp (self c) (captured c) w2)))
                   (set_dsp (self c) (dsp (objs u (self c)))))
             (\<lambda>_ w'. Return (Promise (fresh w')) (snd (q_reject (JObject (self c)) w')))))"
proof -
  have deferred: "\<exists>w'. send n this opts s e w = Return () w' \<and> trace w' = trace w \<and>
            requests w' = requests w \<and>
            reactions w' p = reactions w p @
              [(Some (PerformRequest \<lparr>self = this, captured = dsp (objs w this), options = opts,
                                      success = s, failure = e\<rparr>),
                Some (PerformRequest \<lparr>self = this, captured = dsp (objs w this), options = opts,
                                      success = s, failure = e\<rparr>), fresh w)]"
    if "promise (objs w this) = Val p" "p < fresh w" "promises w p = None"
  proof -
    from send_deferred [OF that, of n opts s e] obtain w' where
      "send n this opts s e w = Return () w'" "trace w' = trace w" "requests w' = requests w"
      "reactions w' = (reactions w)(fresh w := [], p := reactions w p @
       [(Some (PerformRequest \<lparr>self = this, captured = dsp (objs w this), options = opts,
                               success = s, failure = e\<rparr>),
         Some (PerformRequest \<lparr>self = this, captured = dsp (objs w this), options = opts,
                               success = s, failure = e\<rparr>), fresh w)])"
      by blast
    then show ?thesis by simp
  qed
  have visits: "performRequest (Suc m) c u =
        bind (and_then
                (visit_all (dispatch m) ''before-request'' (Some [JConfig (options c)]) (self c)
                   (hook_visits ((objs u (self c))\<lparr>dsp := captured c\<rparr>) ''before-request'')
                   (upd_obj (self c)
                      (\<lambda>x. x\<lparr>dsp := None, response := JNull, error := JFalse\<rparr>) u))
                (set_dsp (self c) (dsp (objs u (self c)))))
          (\<lambda>_ w1. let (h, w2) = http (options c) w1;
                       (p, w3) = q_then h (Some (OnResolved c)) (Some (OnRejected c)) w2
                   in Return p w3) \<and>
      (\<forall>ps. pending (objs u (self c)) = Val ps \<longrightarrow>
         onResolved (Suc m) c v u =
           bind (and_then
                   (bind (visit_all (dispatch m) ''after-request'' (Some [v]) (self c)
                            (hook_visits ((objs u (self c))\<lparr>dsp := captured c\<rparr>) ''after-request'')
                            (upd_obj (self c)
                               (\<lambda>x. x\<lparr>dsp := None,
                                       pending :=
                                         (if length (splice1 ps (indexOf ps (options c))) = 0
                                          then Undefined
                                          else Val (splice1 ps (indexOf ps (options c)))),
                                       status := Some OK, response := v\<rparr>) u))
                      (\<lambda>_ w2. case success c of
                                 None \<Rightarrow> Return () w2
                               | Some f \<Rightarrow> apply_cb (dispatch (Suc m)) f None (Some (self c)) [v]
                                            (set_dsp (self c) (captured c) w2)))
                   (set_dsp (self c) (dsp (objs u (self c)))))
             (\<lambda>_ w'. Return (Value (JObject (self c))) w') \<and>
         onRejected (Suc m) c v u =
           bind (and_then
                   (bind (visit_all (dispatch m) ''after-request-error'' (Some [v]) (self c)
                            (hook_visits ((objs u (self c))\<lparr>dsp := captured c\<rparr>)
                               ''after-request-error'')
                            (upd_obj (self c)
                               (\<lambda>x. x\<lparr>dsp := None,
                                       pending :=
                                         (if length (splice1 ps (indexOf ps (options c))) = 0
                                          then Null
                                          else Val (splice1 ps (indexOf ps (options c)))),
                                       status := Some ERROR, response := v\<rparr>) u))
                      (\<lambda>_ w2. case failure c of
                                 None \<Rightarrow> Return () w2
                               | Some f \<Rightarrow> apply_cb (dispatch (Suc m)) f None (Some (self c)) [v]
                                            (set_dsp (self c) (captured c) w2)))
                   (set_dsp (self c) (dsp (objs u (self c)))))
             (\<lambda>_ w'. Return (Promise (fresh w')) (snd (q_reject (JObject (self c)) w'))))"
    if nc: "\<not> canceled u (options c)"
      and ty: "scope (objs u (self c)) = Some (Dispatchable t) \<or>
               otype (objs u (self c)) \<noteq> Some Plain"
    using performRequest_visits [OF nc ty, of m]
      onResolved_visits [OF nc _ ty, of _ m v] onRejected_visits [OF nc _ ty, of _ m v]
    by blast
  from deferred handlers_under_captured visits show ?thesis by blast
qed

theorem send_captures_override_witness:
  "promise (objs (set_dsp 0 (Some (Decorated None [(''before-request'', Callback 5 [])]))
      (the (ending (send 1 0 1 None None init)))) 0) = Val 1 \<and>
   promises (the (ending (send 1 0 1 None None init))) 1 = None \<and>
   (\<exists>w'. send 1 0 2 None None
        (set_dsp 0 (Some (Decorated None [(''before-request'', Callback 5 [])]))
          (the (ending (send 1 0 1 None None init)))) = Return () w' \<and>
      reactions w' 1 =
        [(Some (PerformRequest \<lparr>self = 0,
             captured = Some (Decorated None [(''before-request'', Callback 5 [])]),
             options = 2, success = None, failure = None\<rparr>),
          Some (PerformRequest \<lparr>self = 0,
             captured = Some (Decorated None [(''before-request'', Callback 5 [])]),
             options = 2, success = None, failure = None\<rparr>), 2)]) \<and>
   labels (performRequest 1
     \<lparr>self = 0, captured = Some (Decorated None [(''before-request'', Callback 5 [])]),
      options = 2, success = None, failure = None\<rparr>
     (set_dsp 0 (Some (Function (Callback 6 []))) init)) = Some [5]"
proof -
  define w1 where "w1 = the (ending (send 1 0 1 None None init))"
  define w where "w = set_dsp 0 (Some (Decorated None [(''before-request'', Callback 5 [])])) w1"
  define c where "c = \<lparr>self = 0,
     captured = Some (Decorated None [(''before-request'', Callback 5 [])]),
     options = 2, success = None, failure = None\<rparr>"
  define u where "u = set_dsp 0 (Some (Function (Callback 6 []))) init"
  have f: "promise (objs w 0) = Val 1" "fresh w = 2" "promises w 1 = None" "reactions w 1 = []"
    "dsp (objs w 0) = Some (Decorated None [(''before-request'', Callback 5 [])])"
    by (simp_all add: w_def w1_def world_defs request_defs)
  then have h1: "promise (objs w 0) = Val 1 \<and> 1 < fresh w \<and> promises w 1 = None"
    by simp
  have h2: "\<not> canceled u (options c) \<and>
    (scope (objs u (self c)) = Some (Dispatchable 0) \<or> otype (objs u (self c)) \<noteq> Some Plain)"
    by (simp add: u_def c_def world_defs)
  have hv: "hook_visits ((objs u (self c))\<lparr>dsp := captured c\<rparr>) ''before-request'' =
      [Override (Decorated None [(''before-request'', Callback 5 [])])]"
    by (simp add: u_def c_def world_defs hook_visits_def)
  note inst = send_captures_override
    [where w = w and this = 0 and p = 1 and n = 1 and opts = 2 and s = None and e = None
       and m = 0 and c = c and x = None and u = u and v = JNull and t = 0]
  from h1 inst obtain w' where "send 1 0 2 None None w = Return () w'"
    "reactions w' 1 = reactions w 1 @
       [(Some (PerformRequest \<lparr>self = 0, captured = dsp (objs w 0), options = 2,
                               success = None, failure = None\<rparr>),
         Some (PerformRequest \<lparr>self = 0, captured = dsp (objs w 0), options = 2,
                               success = None, failure = None\<rparr>), fresh w)]"
    by blast
  with f have first: "\<exists>w'. send 1 0 2 None None w = Return () w' \<and>
      reactions w' 1 = [(Some (PerformRequest c), Some (PerformRequest c), 2)]"
    by (simp add: c_def)
  from h2 inst have "performRequest (Suc 0) c u =
        bind (and_then
                (visit_all (dispatch 0) ''before-request'' (Some [JConfig (options c)]) (self c)
                   (hook_visits ((objs u (self c))\<lparr>dsp := captured c\<rparr>) ''before-request'')
                   (upd_obj (self c)
                      (\<lambda>x. x\<lparr>dsp := None, response := JNull, error := JFalse\<rparr>) u))
                (set_dsp (self c) (dsp (objs u (self c)))))
          (\<lambda>_ w1. let (h, w2) = http (options c) w1;
                       (p, w3) = q_then h (Some (OnResolved c)) (Some (OnRejected c)) w2
                   in Return p w3)"
    by blast
  then have "labels (performRequest 1 c u) = Some [5]"
    unfolding hv by (simp add: u_def c_def world_defs request_defs)
  with f(1,3) first show ?thesis
    unfolding w_def [symmetric] w1_def [symmetric] c_def [symmetric] u_def [symmetric]
    by (simp add: w_def set_dsp_def upd_obj_def)
qed
section \<open>Cancel marks are never removed\<close>

lemma fold_mark: "fold (\<lambda>c f. f(c := True)) ps f0 x \<longleftrightarrow> x \<in> set ps \<or> f0 x"
  by (induction ps arbitrary: f0) auto

lemma cancel_marks:
  assumes "pending (objs w this) = Val ps" and "x \<in> set ps"
  shows "canceled (cancel this w) x"
  using assms by (simp add: cancel_def set_promise_def upd_obj_def fold_mark)

lemma cancel_keeps: "canceled w x \<Longrightarrow> canceled (cancel this w) x"
  by (cases "pending (objs w this)")
     (simp_all add: cancel_def set_promise_def upd_obj_def fold_mark)

lemma performRequest_canceled: "after (performRequest n c w) (\<lambda>w'. canceled w' = canceled w)"
proof (cases "canceled w (options c)")
  case True
  then show ?thesis
    by (simp add: canceled_handlers q_when_def alloc_def set_status_def upd_obj_def)
next
  case False
  show ?thesis
    by (rule post_after [OF performRequest_store(1) [OF False]])
       (simp_all add: same_store_def http_def q_then_def alloc_def subscribe_def)
qed

lemma onResolved_canceled: "after (onResolved n c v w) (\<lambda>w'. canceled w' = canceled w)"
  by (rule post_after [OF onResolved_store(1)]) (simp_all add: same_store_def)

lemma onRejected_canceled: "after (onRejected n c v w) (\<lambda>w'. canceled w' = canceled w)"
proof (cases "canceled w (options c)")
  case True
  then show ?thesis
    by (simp add: canceled_handlers set_status_def upd_obj_def)
next
  case False
  show ?thesis
    by (rule post_after [OF onRejected_store(1) [OF False]])
       (simp_all add: same_store_def q_reject_def alloc_def)
qed

lemma apply_cb_canceled: "after (apply_cb (dispatch n) f h ctx args w) (\<lambda>w'. canceled w' = canceled w)"
  by (rule post_after [OF apply_cb_frame [OF dispatch_frame]])
     (simp_all add: hooks_kept_def hooks_frame_def)

lemma after_bind_canceled:
  assumes "after r (\<lambda>w'. canceled w' = canceled w)"
    and "\<And>x u. canceled u = canceled w \<Longrightarrow> after (f x u) (\<lambda>w'. canceled w' = canceled w)"
  shows "after (bind r f) (\<lambda>w'. canceled w' = canceled w)"
  using assms by (cases r) simp_all

lemma run_handler_canceled: "after (run_handler n k s w) (\<lambda>w'. canceled w' = canceled w)"
proof (cases k)
  case (PerformRequest c)
  show ?thesis
    unfolding PerformRequest run_handler.simps
    by (rule after_bind_canceled [OF performRequest_canceled]) simp
next
  case (OnResolved c)
  then show ?thesis by (simp add: onResolved_canceled)
next
  case (OnRejected c)
  then show ?thesis by (simp add: onRejected_canceled)
next
  case (UserCallback f)
  show ?thesis
    unfolding UserCallback run_handler.simps
    by (rule after_bind_canceled [OF apply_cb_canceled]) simp
next
  case (FinallyCallback f)
  show ?thesis
    unfolding FinallyCallback run_handler.simps
    by (rule after_bind_canceled [OF apply_cb_canceled])
       (simp add: q_reject_def alloc_def split: outcome.split)
qed

lemma canceled_settle [simp]: "canceled (settle d s w) = canceled w"
  by (simp add: settle_def split: option.split)

lemma canceled_subscribe [simp]: "canceled (subscribe p r w) = canceled w"
  by (simp add: subscribe_def split: option.split)

lemma tick_canceled: "after (tick n w) (\<lambda>w'. canceled w' = canceled w)"
proof (cases "queue w")
  case Nil
  then show ?thesis by (simp add: tick_def)
next
  case (Cons j js)
  obtain k s d where j: "j = (k, s, d)" by (cases j)
  show ?thesis
  proof (cases k)
    case None
    then show ?thesis by (simp add: tick_def Cons j)
  next
    case (Some f)
    from run_handler_canceled [of n f s "w\<lparr>queue := js\<rparr>"]
    show ?thesis
      by (cases "run_handler n f s (w\<lparr>queue := js\<rparr>)")
         (simp_all add: tick_def Cons j Some split: returned.split)
  qed
qed

lemma send_cases:
  "send n this opts s e w =
     (case promise (objs w this) of
        Val p \<Rightarrow> Return () (set_promise this (Val (fresh w))
                   (subscribe p
                      (Some (PerformRequest \<lparr>self = this, captured = dispatcher this w,
                               options = opts, success = s, failure = e\<rparr>),
                       Some (PerformRequest \<lparr>self = this, captured = dispatcher this w,
                               options = opts, success = s, failure = e\<rparr>), fresh w)
                      (snd (alloc None (upd_obj this
                         (\<lambda>x. x\<lparr>pending :=
                            Val ((case pending x of Val ps \<Rightarrow> ps | _ \<Rightarrow> []) @ [opts])\<rparr>) w)))))
      | _ \<Rightarrow> bind (performRequest n
                     \<lparr>self = this, captured = dispatcher this w, options = opts,
                       success = s, failure = e\<rparr>
                     (upd_obj this
                         (\<lambda>x. x\<lparr>pending :=
                            Val ((case pending x of Val ps \<Rightarrow> ps | _ \<Rightarrow> []) @ [opts])\<rparr>) w))
               (\<lambda>p w2. Return () (set_promise this (Val p) w2)))"
proof -
  define c where "c = \<lparr>self = this, captured = dispatcher this w, options = opts,
               success = s, failure = e\<rparr>"
  define w1 where "w1 = upd_obj this
     (\<lambda>x. x\<lparr>pending := Val ((case pending x of Val ps \<Rightarrow> ps | _ \<Rightarrow> []) @ [opts])\<rparr>) w"
  have "promise (objs w1 this) = promise (objs w this)" "fresh w1 = fresh w"
    by (simp_all add: w1_def upd_obj_def)
  then show ?thesis
    unfolding send_def Let_def c_def [symmetric] w1_def [symmetric]
    by (simp add: q_then_def alloc_def split: slot.split)
qed

lemma send_canceled: "after (send n this opts s e w) (\<lambda>w'. canceled w' = canceled w)"
proof -
  define c where "c = \<lparr>self = this, captured = dispatcher this w, options = opts,
               success = s, failure = e\<rparr>"
  define w1 where "w1 = upd_obj this
     (\<lambda>x. x\<lparr>pending := Val ((case pending x of Val ps \<Rightarrow> ps | _ \<Rightarrow> []) @ [opts])\<rparr>) w"
  have c1: "canceled w1 = canceled w" by (simp add: w1_def upd_obj_def)
  have p: "after (bind (performRequest n c w1) (\<lambda>p w2. Return () (set_promise this (Val p) w2)))
              (\<lambda>w'. canceled w' = canceled w)"
    using performRequest_canceled [of n c w1]
    by (cases "performRequest n c w1") (simp_all add: c1 set_promise_def upd_obj_def)
  show ?thesis
    unfolding send_cases c_def [symmetric] w1_def [symmetric]
    using p by (simp add: c1 set_promise_def upd_obj_def alloc_def split: slot.split)
qed

lemma step_canceled:
  "after (step n e w) (\<lambda>w'. \<forall>x. canceled w x \<longrightarrow> canceled w' x)"
proof (cases e)
  case (Send this opts s e')
  show ?thesis
    unfolding Send step.simps by (rule after_mono [OF send_canceled]) simp
next
  case (DecoratedSend this hs opts s e')
  let ?w1 = "set_dsp this (case hs of HookFunction f \<Rightarrow> Some f | Falsy \<Rightarrow> None
                | HookMapping m \<Rightarrow> Some (Decorated (dsp (objs w this)) m)) w"
  from send_canceled [of n this opts s e' ?w1] show ?thesis
    by (cases "send n this opts s e' ?w1")
       (simp_all add: DecoratedSend decorate_def set_dsp_def upd_obj_def)
next
  case (Cancel this)
  then show ?thesis by (simp add: cancel_keeps)
next
  case (Then this s e')
  then show ?thesis
    by (simp add: then_cb_def q_then_def alloc_def set_promise_def upd_obj_def split: slot.split)
next
  case (Finally this f)
  then show ?thesis
    by (simp add: finally_cb_def q_then_def alloc_def set_promise_def upd_obj_def split: slot.split)
next
  case (On this h f)
  show ?thesis
    unfolding On step.simps
    by (rule after_mono [OF on_same_store]) (simp add: same_store_def)
next
  case (DispatchHook this h args)
  show ?thesis
    unfolding DispatchHook step.simps
    by (rule post_after [OF dispatch_frame]) (simp_all add: hooks_kept_def hooks_frame_def)
next
  case (TransportSettles h s)
  then show ?thesis by (simp add: transport_settles_def)
next
  case Tick
  show ?thesis
    unfolding Tick step.simps by (rule after_mono [OF tick_canceled]) simp
qed

lemma run_canceled:
  "run n es w = Some u \<Longrightarrow> canceled w x \<Longrightarrow> canceled u x"
proof (induction es arbitrary: w)
  case Nil
  then show ?case by simp
next
  case (Cons e es)
  from step_canceled [of n e w] Cons.prems Cons.IH show ?case
    by (cases "step n e w") (auto split: result.splits)
qed

lemma tick_canceled_settled:
  assumes q: "queue u = (Some k, s, d) # js" and d: "promises u d = None"
    and k: "k = OnResolved c \<or> k = OnRejected c" and c: "canceled u (options c)"
  shows "\<exists>u'. tick m u = Return () u' \<and> promises u' d = Some (Resolve (JObject (self c))) \<and>
     status (objs u' (self c)) = Some CANCELED \<and> trace u' = trace u \<and> requests u' = requests u"
proof -
  have c0: "canceled (u\<lparr>queue := js\<rparr>) (options c)" using c by simp
  from k have "run_handler m k s (u\<lparr>queue := js\<rparr>) =
      Return (Value (JObject (self c))) (set_status (self c) CANCELED (u\<lparr>queue := js\<rparr>))"
    by (auto simp: canceled_handlers [OF c0])
  then have "tick m u = Return () (settle d (Resolve (JObject (self c)))
                (set_status (self c) CANCELED (u\<lparr>queue := js\<rparr>)))"
    by (simp add: tick_def q)
  moreover have "promises (settle d (Resolve (JObject (self c)))
                (set_status (self c) CANCELED (u\<lparr>queue := js\<rparr>))) d = Some (Resolve (JObject (self c)))"
    "status (objs (settle d (Resolve (JObject (self c)))
                (set_status (self c) CANCELED (u\<lparr>queue := js\<rparr>))) (self c)) = Some CANCELED"
    "trace (settle d (Resolve (JObject (self c)))
                (set_status (self c) CANCELED (u\<lparr>queue := js\<rparr>))) = trace u"
    "requests (settle d (Resolve (JObject (self c)))
                (set_status (self c) CANCELED (u\<lparr>queue := js\<rparr>))) = requests u"
    using d by (simp_all add: settle_def set_status_def upd_obj_def)
  ultimately show ?thesis by blast
qed

lemma tick_canceled_perform:
  assumes q: "queue u = (Some (PerformRequest c), s, d) # js" and c: "canceled u (options c)"
  shows "\<exists>u'. tick m u = Return () u' \<and> queue u' = js @ [(None, Resolve (JObject (self c)), d)] \<and>
     status (objs u' (self c)) = Some CANCELED \<and> trace u' = trace u \<and> requests u' = requests u"
proof -
  have c0: "canceled (u\<lparr>queue := js\<rparr>) (options c)" using c by simp
  let ?u1 = "snd (q_when (JObject (self c)) (set_status (self c) CANCELED (u\<lparr>queue := js\<rparr>)))"
  have "tick m u = Return () (subscribe (fresh u) (None, None, d) ?u1)"
    by (simp add: tick_def q canceled_handlers [OF c0] set_status_def upd_obj_def)
  moreover have "queue (subscribe (fresh u) (None, None, d) ?u1) = js @ [(None, Resolve (JObject (self c)), d)]"
    "status (objs (subscribe (fresh u) (None, None, d) ?u1) (self c)) = Some CANCELED"
    "trace (subscribe (fresh u) (None, None, d) ?u1) = trace u"
    "requests (subscribe (fresh u) (None, None, d) ?u1) = requests u"
    by (simp_all add: subscribe_def q_when_def alloc_def set_status_def upd_obj_def)
  ultimately show ?thesis by blast
qed


section \<open>Canceled operations\<close>

text \<open>
  C2. \<^verbatim>\<open>$cancel\<close> marks every options object in \<^verbatim>\<open>$pending\<close> as canceled, and no
  call of a method, no settlement by the transport and no turn of the queue removes a
  mark. So in every world \<open>u\<close> reached after the \<^verbatim>\<open>$cancel\<close>, whichever function of such
  an operation comes to run, with whatever value \<open>v\<close> the transport resolved or
  rejected: it returns (even with no fuel for a dispatch: no hook is dispatched), it
  changes nothing but \<^verbatim>\<open>$status\<close>, which becomes \<^verbatim>\<open>'canceled'\<close> (so the trace is the
  same: no callback was invoked, and no transport call is issued), and it returns the
  object, or a promise resolved with the object. In the queue: the turn that runs the
  continuation of the transport call resolves the chain promise \<open>d\<close> with the object,
  also when the transport rejected; the turn that runs \<^verbatim>\<open>performRequest\<close> makes
  \<open>d\<close> follow a promise resolved with the object.
\<close>

theorem cancel_resolves_as_canceled:
  "pending (objs w this) = Val ps \<and> options c \<in> set ps \<and> self c = this \<and>
   run n es (cancel this w) = Some u \<longrightarrow>
     canceled u (options c) \<and>
     onResolved m c v u = Return (Value (JObject this)) (set_status this CANCELED u) \<and>
     onRejected m c v u = Return (Value (JObject this)) (set_status this CANCELED u) \<and>
     performRequest m c u =
       Return (fresh u) (snd (q_when (JObject this) (set_status this CANCELED u))) \<and>
     (\<forall>k s d js. queue u = (Some k, s, d) # js \<and> promises u d = None \<and>
         (k = OnResolved c \<or> k = OnRejected c) \<longrightarrow>
         (\<exists>u'. tick m u = Return () u' \<and> promises u' d = Some (Resolve (JObject this)) \<and>
               status (objs u' this) = Some CANCELED \<and> trace u' = trace u \<and>
               requests u' = requests u)) \<and>
     (\<forall>s d js. queue u = (Some (PerformRequest c), s, d) # js \<longrightarrow>
         (\<exists>u'. tick m u = Return () u' \<and>
               queue u' = js @ [(None, Resolve (JObject this), d)] \<and>
               status (objs u' this) = Some CANCELED \<and> trace u' = trace u \<and>
               requests u' = requests u))"
proof (intro impI, elim conjE)
  assume pend: "pending (objs w this) = Val ps" and mem: "options c \<in> set ps"
    and self: "self c = this" and run: "run n es (cancel this w) = Some u"
  from cancel_marks [OF pend mem] have "canceled (cancel this w) (options c)" .
  from run_canceled [OF run this] have c: "canceled u (options c)" .
  from canceled_handlers [OF c] tick_canceled_settled [where c = c and u = u and m = m, OF _ _ _ c]
    tick_canceled_perform [where c = c and u = u and m = m, OF _ c] c
  show "canceled u (options c) \<and>
     onResolved m c v u = Return (Value (JObject this)) (set_status this CANCELED u) \<and>
     onRejected m c v u = Return (Value (JObject this)) (set_status this CANCELED u) \<and>
     performRequest m c u =
       Return (fresh u) (snd (q_when (JObject this) (set_status this CANCELED u))) \<and>
     (\<forall>k s d js. queue u = (Some k, s, d) # js \<and> promises u d = None \<and>
         (k = OnResolved c \<or> k = OnRejected c) \<longrightarrow>
         (\<exists>u'. tick m u = Return () u' \<and> promises u' d = Some (Resolve (JObject this)) \<and>
               status (objs u' this) = Some CANCELED \<and> trace u' = trace u \<and>
               requests u' = requests u)) \<and>
     (\<forall>s d js. queue u = (Some (PerformRequest c), s, d) # js \<longrightarrow>
         (\<exists>u'. tick m u = Return () u' \<and>
               queue u' = js @ [(None, Resolve (JObject this), d)] \<and>
               status (objs u' this) = Some CANCELED \<and> trace u' = trace u \<and>
               requests u' = requests u))"
    unfolding self by blast
qed

theorem cancel_resolves_as_canceled_witness:
  "pending (objs (the (run 1 [Send 0 1 None None, Send 0 2 None None] init)) 0) = Val [1, 2] \<and>
   queue (the (run 1 [TransportSettles 0 (Reject (JData 7))]
            (cancel 0 (the (run 1 [Send 0 1 None None, Send 0 2 None None] init))))) =
     [(Some (OnRejected \<lparr>self = 0, captured = None, options = 1, success = None,
                         failure = None\<rparr>), Reject (JData 7), 1)] \<and>
   (\<exists>u'. tick 0 (the (run 1 [TransportSettles 0 (Reject (JData 7))]
            (cancel 0 (the (run 1 [Send 0 1 None None, Send 0 2 None None] init))))) =
            Return () u' \<and>
         promises u' 1 = Some (Resolve (JObject 0)) \<and> status (objs u' 0) = Some CANCELED \<and>
         trace u' = [])"
proof -
  define c where "c = \<lparr>self = 0, captured = None, options = 1, success = None, failure = None\<rparr>"
  define w where "w = the (run 1 [Send 0 1 None None, Send 0 2 None None] init)"
  define u where "u = the (run 1 [TransportSettles 0 (Reject (JData 7))] (cancel 0 w))"
  have w: "pending (objs w 0) = Val [1, 2]"
    by (simp add: w_def world_defs request_defs)
  have r: "run 1 [TransportSettles 0 (Reject (JData 7))] (cancel 0 w) = Some u"
    by (simp add: u_def)
  have u: "queue u = [(Some (OnRejected c), Reject (JData 7), 1)]" "promises u 1 = None"
    "trace u = []"
    by (simp_all add: u_def w_def c_def world_defs request_defs)
  have "pending (objs w 0) = Val [1, 2] \<and> options c \<in> set [1, 2] \<and> self c = 0 \<and>
        run 1 [TransportSettles 0 (Reject (JData 7))] (cancel 0 w) = Some u"
    using w r by (simp add: c_def)
  with cancel_resolves_as_canceled
         [of w 0 "[1, 2]" c 1 "[TransportSettles 0 (Reject (JData 7))]" u 0 JNull]
  have "\<forall>k s d js. queue u = (Some k, s, d) # js \<and> promises u d = None \<and>
         (k = OnResolved c \<or> k = OnRejected c) \<longrightarrow>
         (\<exists>u'. tick 0 u = Return () u' \<and> promises u' d = Some (Resolve (JObject 0)) \<and>
               status (objs u' 0) = Some CANCELED \<and> trace u' = trace u \<and>
               requests u' = requests u)"
    by blast
  with u have "\<exists>u'. tick 0 u = Return () u' \<and> promises u' 1 = Some (Resolve (JObject 0)) \<and>
               status (objs u' 0) = Some CANCELED \<and> trace u' = []"
    by fastforce
  with w u(1) show ?thesis
    unfolding u_def w_def c_def by simp
qed

section \<open>Canceled operations stay in the pending list\<close>

text \<open>
  C3 fails on the code. The two functions that settle an operation remove its options
  from \<^verbatim>\<open>$pending\<close> and reset \<^verbatim>\<open>$pending\<close> when the list is empty, but only on the
  path of an operation that is not canceled; the three canceled paths return before
  that. After a send, a cancel and the resolution of the transport call, nothing is in
  flight, the queue is empty, the status is \<^verbatim>\<open>'canceled'\<close>, and \<^verbatim>\<open>$pending\<close> still
  holds the options object.
\<close>

theorem pending_stays_after_cancel:
  "map_option (\<lambda>u. (pending (objs u 0), status (objs u 0), in_flight u, queue u))
     (run 1 [Send 0 1 None None, Cancel 0, TransportSettles 0 (Resolve (JData 7)), Tick] init) =
   Some (Val [1], Some CANCELED, [], [])"
  by (simp add: world_defs request_defs tick_def in_flight_def)

section \<open>The Promise API needs a chain\<close>

text \<open>
  C9. \<^verbatim>\<open>$then\<close> and \<^verbatim>\<open>$finally\<close> call a method of \<^verbatim>\<open>this.$promise\<close> without a
  test. When the object has no chain, because nothing was ever sent (the property is
  \<^verbatim>\<open>undefined\<close>, as in the initial world) or because \<^verbatim>\<open>$cancel\<close> has set it to
  \<^verbatim>\<open>null\<close>, both throw a \<^verbatim>\<open>TypeError\<close> and change nothing; with a chain both
  return.
\<close>

theorem then_finally_need_chain:
  "(promise (objs w this) = Undefined \<or> promise (objs w this) = Null \<longrightarrow>
      then_cb this s e w = Threw JTypeError w \<and> finally_cb this f w = Threw JTypeError w) \<and>
   then_cb this s e init = Threw JTypeError init \<and>
   finally_cb this f init = Threw JTypeError init \<and>
   promise (objs (cancel this w) this) = Null \<and>
   then_cb this s e (cancel this w) = Threw JTypeError (cancel this w) \<and>
   finally_cb this f (cancel this w) = Threw JTypeError (cancel this w) \<and>
   (promise (objs w this) = Val p \<longrightarrow>
      (\<exists>w'. then_cb this s e w = Return () w') \<and> (\<exists>w'. finally_cb this f w = Return () w'))"
proof -
  have absent: "then_cb this s e u = Threw JTypeError u \<and> finally_cb this f u = Threw JTypeError u"
    if "promise (objs u this) = Undefined \<or> promise (objs u this) = Null" for u
    using that by (auto simp: then_cb_def finally_cb_def)
  have fresh_obj: "promise (objs init this) = Undefined"
    by (simp add: init_def new_obj_def)
  have after_cancel: "promise (objs (cancel this w) this) = Null"
    by (simp add: cancel_def set_promise_def upd_obj_def)
  have present: "(\<exists>w'. then_cb this s e w = Return () w') \<and> (\<exists>w'. finally_cb this f w = Return () w')"
    if "promise (objs w this) = Val p"
    using that by (simp add: then_cb_def finally_cb_def split: prod.split)
  from absent [of w] absent [of init] absent [of "cancel this w"] fresh_obj after_cancel present
  show ?thesis by blast
qed

theorem then_finally_need_chain_witness:
  "promise (objs (cancel 0 init) 0) = Null \<and>
   then_cb 0 None None (cancel 0 init) = Threw JTypeError (cancel 0 init) \<and>
   finally_cb 0 (Callback 1 []) (cancel 0 init) = Threw JTypeError (cancel 0 init)"
proof -
  have h: "promise (objs (cancel 0 init) 0) = Null"
    by (simp add: cancel_def set_promise_def upd_obj_def)
  from h then_finally_need_chain [of "cancel 0 init" 0 None None "Callback 1 []" 0]
  show ?thesis by blast
qed


end
